theory Spec2Isabelle
  imports Main "HOL-Library.Char_ord" "HOL-Library.List_Lexorder"
begin

section \<open>JsonSerial: a shallow embedding of the serialization engine\<close>

text \<open>
  The C++ library is a set of templates over the user's classes.  The embedding
  instantiates them at the following C++ types, which are reified as \<open>ty\<close>:
  \<^verbatim>\<open>std::string\<close>, raw pointers \<^verbatim>\<open>T*\<close> to registered classes, \<^verbatim>\<open>std::vector<E>\<close> /
  \<^verbatim>\<open>std::list<E>\<close>, and \<^verbatim>\<open>std::map<std::string,E>\<close>; objects of registered classes and
  maps live in a store indexed by their address, as \<^verbatim>\<open>writeObject\<close> and \<^verbatim>\<open>readObject\<close>
  identify them by \<^verbatim>\<open>void*\<close>.  Member descriptors are \<^verbatim>\<open>InstanceMember\<close> and
  \<^verbatim>\<open>InstanceMemberWithCreator\<close>.  Exceptions are outcomes; the state reached when an
  exception is thrown is kept, since the targets are mutated in place.
\<close>

subsection \<open>Characters (the classic C locale)\<close>

definition dq :: char where "dq = CHR 0x22"
definition bsl :: char where "bsl = CHR 0x5C"
definition nl :: char where "nl = CHR 0x0A"
definition sq :: char where "sq = CHR 0x27"

definition isspace :: "char \<Rightarrow> bool" where
  "isspace c = (c = CHR 0x20 \<or> c = CHR 0x09 \<or> c = CHR 0x0A \<or> c = CHR 0x0B
      \<or> c = CHR 0x0C \<or> c = CHR 0x0D)"

definition iscntrl :: "char \<Rightarrow> bool" where
  "iscntrl c = ((of_char c :: nat) < 32 \<or> c = CHR 0x7F)"

definition isdigit :: "char \<Rightarrow> bool" where
  "isdigit c = (48 \<le> (of_char c :: nat) \<and> (of_char c :: nat) \<le> 57)"

text \<open>\<^verbatim>\<open>operator<<\<close> on an unsigned integer and \<^verbatim>\<open>std::to_string\<close>: decimal digits.\<close>

fun to_string :: "nat \<Rightarrow> string" where
  "to_string n = (if n < 10 then [char_of (48 + n)]
     else to_string (n div 10) @ [char_of (48 + n mod 10)])"

declare to_string.simps [simp del]

text \<open>\<^verbatim>\<open>s.c_str()\<close> read as a C string: the bytes before the first NUL.\<close>

definition c_str :: "string \<Rightarrow> string" where
  "c_str s = takeWhile (\<lambda>c. c \<noteq> CHR 0x00) s"

text \<open>\<^verbatim>\<open>token[0]\<close> of a \<^verbatim>\<open>std::string\<close>: the NUL terminator when the string is empty.\<close>

definition tok0 :: "string \<Rightarrow> char" where
  "tok0 s = (case s of [] \<Rightarrow> CHR 0x00 | c # _ \<Rightarrow> c)"

subsection \<open>Errors (jsonerror.hpp)\<close>

datatype Type =
  OK | CantReadFile | CantWriteFile | NoData | PrematureEOF | InvalidCharacter
  | ExpectingComma | ExpectingDelimiter | ExpectingBrace | ExpectingBracket
  | ExpectingPairOrBrace | ExpectingValueOrBracket | ExpectingString
  | UnknownClass | UnknownSuperclass | RedefinedClass | RedefinedSuperclass
  | UnknownMember | RedefinedMember | AbstractClass | CantCreateObject | CantAddToArray
  | InvalidValue | InvalidID | WrongKeyword

record JsonError =
  etype :: Type
  fatal :: bool
  arg :: string
  line :: nat

text \<open>
  What a call can end with: it returns, it throws (a \<^verbatim>\<open>JsonError*\<close>, or one of the
  standard exceptions of \<^verbatim>\<open>std::stoul\<close>), or the recursion budget of the model is
  used up (\<open>OutOfFuel\<close> is not a behaviour of the program).
\<close>

datatype exn = JsonErrorExn | StdInvalidArgument | StdOutOfRange

datatype outcome = Normal | Thrown exn | OutOfFuel

subsection \<open>Values, the store and the class registry (jsonclasses.hpp, jsondefs.hpp)\<close>

type_synonym addr = nat
type_synonym tyid = string

datatype ty = TString | TPtr tyid | TVector ty | TMap ty

datatype val =
  VString string
  | VPtr tyid "addr option"
  | VObj tyid addr
  | VVector ty "val list"
  | VMap ty addr

datatype cell =
  Obj (otype: tyid) (ofields: "string \<Rightarrow> val")
  | MapCell (mty: ty) (mentries: "(string \<times> val) list")

text \<open>
  An object or a map that is a member by value (\<open>VObj\<close>, \<open>VMap\<close>) has a cell and an address of
  its own, and no two cells have the same address.  In C++ a member at offset 0 has the
  address of the object that contains it; such a layout is outside the embedding.  The
  fields of the superclass parts of an object are fields of its cell, or of the cell at the
  address that the upcast gives.
\<close>

text \<open>
  A creator thunk returns a pointer to a newly allocated object, or null:
  \<open>Some c\<close> allocates the cell \<open>c\<close>, \<open>None\<close> returns null.
\<close>

type_synonym Creator = "cell option"

datatype Member =
  InstanceMember (name: string) (variable: string)
  | InstanceMemberWithCreator (name: string) (variable: string) (mcreator: Creator)

datatype MetaClass =
  ObjectClass (classname: string) (superclasses: "Superclass list")
    (creator: "Creator option") (members: "Member list")
    (postread: "(cell \<Rightarrow> cell) option")
  | MapClass ty
and Superclass = Superclass (super: MetaClass) (upcast: "addr \<Rightarrow> addr")

record JsonClasses =
  classindexes :: "(tyid \<times> MetaClass) list"
  classnames :: "(string \<times> MetaClass) list"

definition getClass :: "JsonClasses \<Rightarrow> string \<Rightarrow> MetaClass option" where
  "getClass classes cname = map_of (classnames classes) cname"

definition getClassT :: "JsonClasses \<Rightarrow> tyid \<Rightarrow> MetaClass option" where
  "getClassT classes tinfo = map_of (classindexes classes) tinfo"

subsection \<open>The engine state (class JsonSerial)\<close>

text \<open>
  The fields of \<^verbatim>\<open>JsonSerial\<close>, with the two streams as the characters still to be read
  and the characters written so far, the store the object pointers point into, and the
  list of the errors handed to the error handler.  Syntax flags are the source's bitmask.
\<close>

record JsonSerial =
  istream :: string
  in_good :: bool
  ostream :: string
  allow :: nat
  needcomma :: bool
  in_multiquotes :: bool
  sharing :: bool
  lineno :: nat
  indent :: nat
  level :: int
  tabchar :: char
  tabs :: string
  current_object_id :: nat
  object_to_id :: "addr \<Rightarrow> nat option"
  id_to_object :: "nat \<Rightarrow> addr option"
  jsonerror :: "JsonError option"
  reported :: "JsonError list"
  store :: "addr \<Rightarrow> cell option"
  brk :: addr

definition Comments :: nat where "Comments = 1"
definition NoQuotes :: nat where "NoQuotes = 2"
definition NoCommas :: nat where "NoCommas = 4"
definition Newlines :: nat where "Newlines = 8"

definition allows :: "JsonSerial \<Rightarrow> nat \<Rightarrow> bool" where
  "allows js flag = (Bit_Operations.and (allow js) flag \<noteq> 0)"

definition error :: "Type \<Rightarrow> string \<Rightarrow> bool \<Rightarrow> JsonSerial \<Rightarrow> outcome \<times> JsonSerial" where
  "error t a f js =
     (let e = \<lparr>etype = t, fatal = f, arg = a, line = lineno js\<rparr>;
          js' = js\<lparr>jsonerror := Some e, reported := reported js @ [e]\<rparr>
      in (if f then Thrown JsonErrorExn else Normal, js'))"

subsection \<open>Tokenizer: value checks (jsonserial.hpp)\<close>

fun isNumber_loop :: "bool \<Rightarrow> bool \<Rightarrow> string \<Rightarrow> bool" where
  "isNumber_loop dotfound expfound [] = True"
| "isNumber_loop dotfound expfound [c] =
     (if isdigit c then True
      else if c = CHR ''.'' then \<not> dotfound
      else if c = CHR ''e'' \<or> c = CHR ''E'' then \<not> expfound
      else False)"
| "isNumber_loop dotfound expfound (c # d # cs) =
     (if isdigit c then isNumber_loop dotfound expfound (d # cs)
      else if c = CHR ''.'' then
        (if dotfound then False else isNumber_loop True expfound (d # cs))
      else if c = CHR ''e'' \<or> c = CHR ''E'' then
        (if expfound then False
         else if d = CHR ''+'' \<or> d = CHR ''-'' then isNumber_loop dotfound True cs
         else isNumber_loop dotfound True (d # cs))
      else False)"

definition isNumber :: "string \<Rightarrow> bool" where
  "isNumber token =
     (if token = [] then False
      else (let p = c_str token;
                p' = (case p of [] \<Rightarrow> p | c # cs \<Rightarrow> if c = CHR ''-'' then cs else p)
            in isNumber_loop False False p'))"

definition trimRight :: "string \<Rightarrow> string" where
  "trimRight token =
     (let t = rev (dropWhile isspace (rev token)) in if t = [] then token else t)"

definition checkValue :: "string \<Rightarrow> bool \<Rightarrow> JsonSerial \<Rightarrow> outcome \<times> string \<times> JsonSerial" where
  "checkValue token0 objName js =
     (let token = trimRight token0 in
      if objName then
        (if allows js NoQuotes \<or> tok0 token = CHR ''}'' \<or> tok0 token = CHR '']'' then
           (Normal, token, js)
         else (let (oc, js') = error ExpectingString token True js in (oc, token, js')))
      else if allows js NoQuotes \<or> token = [] \<or> tok0 token = CHR ''}'' \<or> tok0 token = CHR '']''
           \<or> token = ''true'' \<or> token = ''false'' \<or> token = ''null'' \<or> isNumber token then
        (Normal, token, js)
      else (let (oc, js') = error InvalidValue (token @ '' (should be quoted?)'') True js
            in (oc, token, js')))"

subsection \<open>Tokenizer: the input stream and \<^verbatim>\<open>readLine\<close>\<close>

text \<open>
  \<^verbatim>\<open>in_->get(c)\<close> fails at the end of the input and then leaves the stream not good;
  \<^verbatim>\<open>peek\<close> looks at the next character (at the end of the input every path of
  \<^verbatim>\<open>readLine\<close> goes on to a failing \<^verbatim>\<open>get\<close>, so the flag it would set is set there);
  \<^verbatim>\<open>putback\<close> is only called right after a successful \<^verbatim>\<open>get\<close>.
\<close>

definition peek :: "JsonSerial \<Rightarrow> char option" where
  "peek js = (case istream js of [] \<Rightarrow> None | c # _ \<Rightarrow> Some c)"

definition get :: "JsonSerial \<Rightarrow> char option \<times> JsonSerial" where
  "get js = (case istream js of [] \<Rightarrow> (None, js\<lparr>in_good := False\<rparr>)
     | c # cs \<Rightarrow> (Some c, js\<lparr>istream := cs\<rparr>))"

definition putback :: "char \<Rightarrow> JsonSerial \<Rightarrow> JsonSerial" where
  "putback c js = js\<lparr>istream := c # istream js\<rparr>"

definition escaped :: "char \<Rightarrow> char" where
  "escaped c =
     (if c = CHR ''b'' then CHR 0x08
      else if c = CHR ''f'' then CHR 0x0C
      else if c = CHR ''n'' then CHR 0x0A
      else if c = CHR ''r'' then CHR 0x0D
      else if c = CHR ''t'' then CHR 0x09
      else c)"

text \<open>At the end of the input \<^verbatim>\<open>in_->get()\<close> is \<^verbatim>\<open>EOF\<close>, and \<^verbatim>\<open>token += c\<close> adds the byte 0xFF.\<close>

definition readEscape :: "string \<Rightarrow> JsonSerial \<Rightarrow> string \<times> JsonSerial" where
  "readEscape token js =
     (case get js of
        (None, js') \<Rightarrow> (token @ [CHR 0xFF], js')
      | (Some c, js') \<Rightarrow> (token @ [escaped c], js'))"

datatype Part =
  Begin | InQuotedToken1 | InUnquotedToken1 | AfterToken1 | AfterComa
  | InQuotedToken2 | InUnquotedToken2 | AfterToken2 | Comment | LineComment

text \<open>
  The variables of one \<^verbatim>\<open>readLine\<close> call: its four out-parameters, the two token
  buffers \<^verbatim>\<open>token1_\<close> and \<^verbatim>\<open>token2_\<close> (cleared at the start of every call), and the state
  of the scanner.
\<close>

record locals =
  token1 :: string
  token2 :: string
  found1 :: bool
  found2 :: bool
  token1_buf :: string
  token2_buf :: string
  part :: Part
  lastPart :: Part

datatype flow = Cont | Ret outcome

definition invalid_char :: "char \<Rightarrow> locals \<Rightarrow> JsonSerial \<Rightarrow> flow \<times> locals \<times> JsonSerial" where
  "invalid_char c l js =
     (let msg = (if c = CHR 0x0A then ''newline '' else if c = CHR 0x0D then ''CR ''
                 else if c = CHR 0x09 then ''tab '' else []);
          (oc, js') = error InvalidCharacter
                        (msg @ ''(code: '' @ to_string (of_char c) @ '')'') True js
      in (Ret oc, l, js'))"

definition separator :: "JsonSerial \<Rightarrow> char \<Rightarrow> bool" where
  "separator js c = (c = CHR '','' \<or> (allows js NoCommas \<and> c = CHR 0x0A))"

definition closer :: "char \<Rightarrow> bool" where
  "closer c = (c = CHR ''}'' \<or> c = CHR '']'')"

definition opener :: "char \<Rightarrow> bool" where
  "opener c = (c = CHR ''{'' \<or> c = CHR ''['')"

text \<open>The comment test made before the \<^verbatim>\<open>switch\<close>; it may read the \<^verbatim>\<open>*\<close> of \<^verbatim>\<open>/*\<close>.\<close>

definition comment_check :: "char \<Rightarrow> locals \<Rightarrow> JsonSerial \<Rightarrow> char \<times> locals \<times> JsonSerial" where
  "comment_check c l js =
     (if allows js Comments \<and> part l \<noteq> InQuotedToken1 \<and> part l \<noteq> InQuotedToken2 then
        (if part l \<noteq> Comment \<and> c = CHR ''/'' \<and> peek js = Some CHR ''/'' then
           (if part l \<noteq> LineComment then (c, l\<lparr>lastPart := part l, part := LineComment\<rparr>, js)
            else (c, l, js))
         else if part l \<noteq> LineComment \<and> c = CHR ''/'' \<and> peek js = Some CHR ''*'' then
           (if part l \<noteq> Comment then
              (CHR ''*'', l\<lparr>lastPart := part l, part := Comment\<rparr>, snd (get js))
            else (c, l, js))
         else (c, l, js))
      else (c, l, js))"

definition checked1 :: "bool \<Rightarrow> flow \<Rightarrow> locals \<Rightarrow> JsonSerial \<Rightarrow> flow \<times> locals \<times> JsonSerial" where
  "checked1 inObj k l js =
     (let (oc, t, js') = checkValue (token1_buf l) inObj js
      in (if oc = Normal then k else Ret oc, l\<lparr>token1 := t\<rparr>, js'))"

definition checked2 :: "locals \<Rightarrow> JsonSerial \<Rightarrow> flow \<times> locals \<times> JsonSerial" where
  "checked2 l js =
     (let (oc, t, js') = checkValue (token2_buf l) False js
      in (Ret oc, l\<lparr>token2 := t\<rparr>, js'))"

definition in_quoted :: "bool \<Rightarrow> char \<Rightarrow> bool" where
  "in_quoted newlines c = (iscntrl c \<and> (\<not> newlines \<or> \<not> isspace c))"

definition switch_part :: "bool \<Rightarrow> char \<Rightarrow> locals \<Rightarrow> JsonSerial \<Rightarrow> flow \<times> locals \<times> JsonSerial" where
  "switch_part inObj c l js =
     (case part l of
        Begin \<Rightarrow>
          (if c = dq then (Cont, l\<lparr>found1 := True, part := InQuotedToken1\<rparr>, js)
           else if opener c then (Ret Normal, l\<lparr>found1 := True, token1 := [c]\<rparr>, js)
           else if \<not> isspace c then
             (Cont, l\<lparr>found1 := True, token1_buf := token1_buf l @ [c],
                      part := InUnquotedToken1\<rparr>, js)
           else (Cont, l, js))
      | InQuotedToken1 \<Rightarrow>
          (if c = dq then (Cont, l\<lparr>token1 := token1_buf l, part := AfterToken1\<rparr>, js)
           else if c = bsl then
             (let (t, js') = readEscape (token1_buf l) js in (Cont, l\<lparr>token1_buf := t\<rparr>, js'))
           else if in_quoted (allows js Newlines) c then invalid_char c l js
           else (Cont, l\<lparr>token1_buf := token1_buf l @ [c]\<rparr>, js))
      | InUnquotedToken1 \<Rightarrow>
          (if separator js c then checked1 inObj (Ret Normal) l js
           else if closer c then checked1 inObj (Ret Normal) l (putback c js)
           else if c = CHR '':'' \<and> inObj then
             (let (k, l', js') = checked1 inObj Cont l js in (k, l'\<lparr>part := AfterComa\<rparr>, js'))
           else if c = bsl then
             (let (t, js') = readEscape (token1_buf l) js in (Cont, l\<lparr>token1_buf := t\<rparr>, js'))
           else (Cont, l\<lparr>token1_buf := token1_buf l @ [c]\<rparr>, js))
      | AfterToken1 \<Rightarrow>
          (if separator js c then (Ret Normal, l, js)
           else if closer c then (Ret Normal, l, putback c js)
           else if c = CHR '':'' \<and> inObj then (Cont, l\<lparr>part := AfterComa\<rparr>, js)
           else if \<not> isspace c then
             (let (oc, js') = error ExpectingComma [] True js in (Ret oc, l, js'))
           else (Cont, l, js))
      | AfterComa \<Rightarrow>
          (if c = dq then
             (if peek js \<noteq> Some dq then (Cont, l\<lparr>found2 := True, part := InQuotedToken2\<rparr>, js)
              else (let js1 = snd (get js) in
                if peek js1 \<noteq> Some dq then
                  (Cont, l\<lparr>found2 := True, token2 := [], part := AfterToken2\<rparr>, js1)
                else (Cont, l\<lparr>found2 := True, part := InQuotedToken2\<rparr>,
                      (snd (get js1))\<lparr>in_multiquotes := True\<rparr>)))
           else if opener c then (Ret Normal, l\<lparr>found2 := True, token2 := [c]\<rparr>, js)
           else if \<not> isspace c then
             (Cont, l\<lparr>found2 := True, token2_buf := token2_buf l @ [c],
                      part := InUnquotedToken2\<rparr>, js)
           else (Cont, l, js))
      | InQuotedToken2 \<Rightarrow>
          (if c = dq then
             (if \<not> in_multiquotes js then
                (Cont, l\<lparr>token2 := token2_buf l, part := AfterToken2\<rparr>, js)
              else if peek js \<noteq> Some dq then (Cont, l\<lparr>token2_buf := token2_buf l @ [dq]\<rparr>, js)
              else (let js1 = snd (get js) in
                if peek js1 \<noteq> Some dq then
                  (Cont, l\<lparr>token2_buf := token2_buf l @ [dq, dq]\<rparr>, js1)
                else (Cont, l\<lparr>token2 := token2_buf l, part := AfterToken2\<rparr>,
                      (snd (get js1))\<lparr>in_multiquotes := False\<rparr>)))
           else if in_multiquotes js \<and> isspace c then
             (Cont, l\<lparr>token2_buf := token2_buf l @ [c]\<rparr>, js)
           else if c = bsl then
             (let (t, js') = readEscape (token2_buf l) js in (Cont, l\<lparr>token2_buf := t\<rparr>, js'))
           else if in_quoted (allows js Newlines) c then invalid_char c l js
           else (Cont, l\<lparr>token2_buf := token2_buf l @ [c]\<rparr>, js))
      | InUnquotedToken2 \<Rightarrow>
          (if separator js c then checked2 l js
           else if closer c then checked2 l (putback c js)
           else if c = bsl then
             (let (t, js') = readEscape (token2_buf l) js in (Cont, l\<lparr>token2_buf := t\<rparr>, js'))
           else (Cont, l\<lparr>token2_buf := token2_buf l @ [c]\<rparr>, js))
      | AfterToken2 \<Rightarrow>
          (if separator js c then (Ret Normal, l, js)
           else if closer c then (Ret Normal, l, putback c js)
           else if \<not> isspace c then
             (let (oc, js') = error ExpectingDelimiter [] True js in (Ret oc, l, js'))
           else (Cont, l, js))
      | LineComment \<Rightarrow>
          (if allows js Comments \<and> c = CHR 0x0A then (Cont, l\<lparr>part := lastPart l\<rparr>, js)
           else (Cont, l, js))
      | Comment \<Rightarrow>
          (if allows js Comments \<and> c = CHR ''*'' \<and> peek js = Some CHR ''/'' then
             (Cont, l\<lparr>part := lastPart l\<rparr>, snd (get js))
           else (Cont, l, js)))"

text \<open>One turn of the \<^verbatim>\<open>while (true)\<close> loop, after \<^verbatim>\<open>get\<close> has delivered \<open>c\<close>.\<close>

definition iteration :: "bool \<Rightarrow> char \<Rightarrow> locals \<Rightarrow> JsonSerial \<Rightarrow> flow \<times> locals \<times> JsonSerial" where
  "iteration inObj c l js =
     (if c = CHR 0x0A then switch_part inObj c l (js\<lparr>lineno := lineno js + 1\<rparr>)
      else if iscntrl c \<and> \<not> isspace c then invalid_char c l js
      else (let (c', l', js') = comment_check c l js in switch_part inObj c' l' js'))"

definition at_eof :: "bool \<Rightarrow> locals \<Rightarrow> JsonSerial \<Rightarrow> outcome \<times> locals \<times> JsonSerial" where
  "at_eof inObj l js =
     (if token1_buf l \<noteq> [] then
        (let (oc, t, js') = checkValue (token1_buf l) inObj js in (oc, l\<lparr>token1 := t\<rparr>, js'))
      else (Normal, l, js))"

lemma error_istream: "error t a f js = (oc, js') \<Longrightarrow> istream js' = istream js"
  by (auto simp: error_def Let_def)

lemma checkValue_istream: "checkValue t b js = (oc, t', js') \<Longrightarrow> istream js' = istream js"
  by (auto simp: checkValue_def Let_def error_def split: if_splits)

lemma get_istream: "length (istream (snd (get js))) \<le> length (istream js)"
  by (simp add: get_def split: list.splits)

lemma readEscape_istream:
  "readEscape t js = (t', js') \<Longrightarrow> length (istream js') \<le> length (istream js)"
  by (auto simp: readEscape_def get_def split: list.splits)

lemma comment_check_istream:
  "comment_check c l js = (c', l', js') \<Longrightarrow> length (istream js') \<le> length (istream js)"
  using get_istream [of js] by (auto simp: comment_check_def split: if_splits)

lemma checked1_istream:
  "checked1 inObj k l js = (k', l', js') \<Longrightarrow> istream js' = istream js"
  by (auto simp: checked1_def split: prod.splits dest: checkValue_istream)

lemma checked1_Ret: "checked1 inObj (Ret r) l js = (Cont, l', js') \<Longrightarrow> False"
  by (auto simp: checked1_def split: prod.splits if_splits)

lemma switch_part_istream:
  "switch_part inObj c l js = (Cont, l', js') \<Longrightarrow> length (istream js') \<le> length (istream js)"
  unfolding switch_part_def
  by (cases "part l")
     (auto simp: invalid_char_def checked2_def Let_def get_def peek_def
           split: if_splits prod.splits list.splits
           dest: readEscape_istream checked1_istream checked1_Ret)

lemma iteration_istream:
  "iteration inObj c l js = (Cont, l', js') \<Longrightarrow> length (istream js') \<le> length (istream js)"
  unfolding iteration_def
  by (auto simp: invalid_char_def Let_def split: if_splits prod.splits
           dest!: switch_part_istream comment_check_istream)

function readLine_loop :: "bool \<Rightarrow> locals \<Rightarrow> JsonSerial \<Rightarrow> outcome \<times> locals \<times> JsonSerial" where
  "readLine_loop inObj l js =
     (case get js of
        (None, js1) \<Rightarrow> at_eof inObj l js1
      | (Some c, js1) \<Rightarrow>
          (case iteration inObj c l js1 of
             (Cont, l', js') \<Rightarrow> readLine_loop inObj l' js'
           | (Ret oc, l', js') \<Rightarrow> (oc, l', js')))"
  by pat_completeness auto
termination
proof (relation "measure (\<lambda>(inObj, l, js). length (istream js))")
  show "wf (measure (\<lambda>(inObj, l, js). length (istream js)))" by simp
next
  fix inObj l js x1 js1 c tr fl l' js'
  assume g: "(x1, js1) = get js" and x: "x1 = Some c"
    and it: "(fl, tr) = iteration inObj c l js1" and tr: "(l', js') = tr" and fl: "fl = Cont"
  from g x have "length (istream js1) < length (istream js)"
    by (auto simp: get_def split: list.splits)
  moreover from it tr fl have "length (istream js') \<le> length (istream js1)"
    using iteration_istream [of inObj c l js1 l' js'] by simp
  ultimately show "((inObj, l', js'), (inObj, l, js)) \<in> measure (\<lambda>(inObj, l, js). length (istream js))"
    by simp
qed

declare readLine_loop.simps [simp del]

definition readLine :: "bool \<Rightarrow> JsonSerial
    \<Rightarrow> outcome \<times> string \<times> string \<times> bool \<times> bool \<times> JsonSerial" where
  "readLine inObj js =
     (let (oc, l, js') = readLine_loop inObj
            \<lparr>token1 = [], token2 = [], found1 = False, found2 = False,
             token1_buf = [], token2_buf = [], part = Begin, lastPart = Begin\<rparr> js
      in (oc, token1 l, token2 l, found1 l, found2 l, js'))"

subsection \<open>Access to the store\<close>

text \<open>
  \<^verbatim>\<open>typeid(obj)\<close> is the type of the object the reference points to; \<^verbatim>\<open>obj.*variable_\<close>
  is a field of it.  A pointer that does not point to an object of the store has no
  defined behaviour in C++; the three functions below are total all the same.
\<close>

definition typeid_of :: "JsonSerial \<Rightarrow> tyid \<Rightarrow> addr \<Rightarrow> tyid" where
  "typeid_of js T a = (case store js a of Some (Obj t fs) \<Rightarrow> t | _ \<Rightarrow> T)"

definition get_field :: "JsonSerial \<Rightarrow> addr \<Rightarrow> string \<Rightarrow> val" where
  "get_field js a f = (case store js a of Some (Obj t fs) \<Rightarrow> fs f | _ \<Rightarrow> VString [])"

definition set_field :: "addr \<Rightarrow> string \<Rightarrow> val \<Rightarrow> JsonSerial \<Rightarrow> JsonSerial" where
  "set_field a f v js =
     (case store js a of
        Some (Obj t fs) \<Rightarrow> js\<lparr>store := (store js)(a \<mapsto> Obj t (fs(f := v)))\<rparr>
      | _ \<Rightarrow> js)"

definition map_entries :: "JsonSerial \<Rightarrow> addr \<Rightarrow> (string \<times> val) list" where
  "map_entries js a = (case store js a of Some (MapCell t es) \<Rightarrow> es | _ \<Rightarrow> [])"

subsection \<open>Writer (jsonserial.hpp, jsonimpl.hpp)\<close>

definition reset :: "nat \<Rightarrow> string \<Rightarrow> string \<Rightarrow> JsonSerial \<Rightarrow> JsonSerial" where
  "reset ln inp outp js =
     js\<lparr>istream := inp, in_good := True, ostream := outp, lineno := ln, needcomma := False,
        level := 0, in_multiquotes := False, tabs := replicate 40 (tabchar js),
        object_to_id := Map.empty, id_to_object := Map.empty, current_object_id := 0,
        jsonerror := None\<rparr>"

definition put :: "string \<Rightarrow> JsonSerial \<Rightarrow> JsonSerial" where
  "put s js = js\<lparr>ostream := ostream js @ s\<rparr>"

definition addTab :: "JsonSerial \<Rightarrow> JsonSerial" where
  "addTab js =
     (let js' = js\<lparr>level := level js + 1\<rparr> in
      if nat (level js') * indent js' \<ge> length (tabs js') then
        js'\<lparr>tabs := tabs js' @ replicate 20 (tabchar js')\<rparr>
      else js')"

definition removeTab :: "JsonSerial \<Rightarrow> JsonSerial" where
  "removeTab js = (let lv = level js - 1 in js\<lparr>level := (if lv < 0 then 0 else lv)\<rparr>)"

text \<open>
  \<^verbatim>\<open>out_->write(tabs_.data(), level_*indent_)\<close>; the buffer is long enough whenever
  \<^verbatim>\<open>indent_\<close> is at most 20 (beyond the buffer the C++ behaviour is undefined).
\<close>

definition writeTabs :: "JsonSerial \<Rightarrow> JsonSerial" where
  "writeTabs js = put (take (nat (level js) * indent js) (tabs js)) js"

definition escape_out :: "char \<Rightarrow> string" where
  "escape_out c =
     (if c = dq then [bsl, dq]
      else if c = bsl then [bsl, bsl]
      else if c = CHR 0x08 then [bsl, CHR ''b'']
      else if c = CHR 0x0C then [bsl, CHR ''f'']
      else if c = CHR 0x0A then [bsl, CHR ''n'']
      else if c = CHR 0x0D then [bsl, CHR ''r'']
      else if c = CHR 0x09 then [bsl, CHR ''t'']
      else [c])"

text \<open>\<^verbatim>\<open>writeString(s.c_str(), false)\<close> for a \<^verbatim>\<open>std::string\<close>: the pointer is never null.\<close>

definition writeString :: "string \<Rightarrow> JsonSerial \<Rightarrow> JsonSerial" where
  "writeString s js =
     (put ([dq] @ concat (map escape_out (c_str s)) @ [dq]) js)\<lparr>needcomma := True\<rparr>"

definition member_label :: "string \<Rightarrow> JsonSerial \<Rightarrow> JsonSerial" where
  "member_label n js = put ([dq] @ n @ [dq] @ '': '') (writeTabs js)"

definition comma :: "JsonSerial \<Rightarrow> JsonSerial" where
  "comma js = (if needcomma js then put ('','' @ [nl]) js else js)\<lparr>needcomma := False\<rparr>"

text \<open>
  The writer is a family of mutually recursive functions.  They are defined by recursion
  on a call budget: \<open>writer (Suc n)\<close> runs the body of the requested function, whose
  calls run with \<open>writer n\<close>; \<open>writer 0\<close> is \<open>OutOfFuel\<close>.  Without sharing the C++ writer
  does not return on a cyclic graph, and neither does the model for any budget.
\<close>

datatype wreq =
  WriteValue val
  | WriteValue2_defobject tyid addr
  | WriteObject MetaClass bool addr
  | WriteMembers MetaClass addr

type_synonym wrec = "wreq \<Rightarrow> JsonSerial \<Rightarrow> outcome \<times> JsonSerial"

text \<open>A \<^verbatim>\<open>for\<close> loop over a container, left when the body throws.\<close>

primrec for_each :: "('a \<Rightarrow> JsonSerial \<Rightarrow> outcome \<times> JsonSerial) \<Rightarrow> 'a list \<Rightarrow> JsonSerial
    \<Rightarrow> outcome \<times> JsonSerial" where
  "for_each body [] js = (Normal, js)"
| "for_each body (it # its) js =
     (case body it js of
        (Normal, js') \<Rightarrow> for_each body its js'
      | r \<Rightarrow> r)"

text \<open>The template \<^verbatim>\<open>writeValue(const T& val)\<close>: \<^verbatim>\<open>writeValue2<T>(val); needcomma_ = true\<close>.\<close>

definition then_needcomma :: "outcome \<times> JsonSerial \<Rightarrow> outcome \<times> JsonSerial" where
  "then_needcomma r = (case r of (Normal, js') \<Rightarrow> (Normal, js'\<lparr>needcomma := True\<rparr>) | _ \<Rightarrow> r)"

definition writeArray_body :: "wrec \<Rightarrow> val list \<Rightarrow> JsonSerial \<Rightarrow> outcome \<times> JsonSerial" where
  "writeArray_body rec array js =
     (case for_each (\<lambda>it js.
               rec (WriteValue it)
                 ((writeTabs (if needcomma js then put ('','' @ [nl]) js else js))
                    \<lparr>needcomma := False\<rparr>))
             array (addTab (put (''['' @ [nl]) (js\<lparr>needcomma := False\<rparr>))) of
        (Normal, js') \<Rightarrow> (Normal, put '']'' (writeTabs (put [nl] (removeTab js'))))
      | r \<Rightarrow> r)"

definition writeValue_body :: "wrec \<Rightarrow> val \<Rightarrow> JsonSerial \<Rightarrow> outcome \<times> JsonSerial" where
  "writeValue_body rec v js =
     (case v of
        VString s \<Rightarrow> (Normal, writeString s js)
      | VPtr T None \<Rightarrow> (Normal, (put ''null'' js)\<lparr>needcomma := True\<rparr>)
      | VPtr T (Some a) \<Rightarrow> then_needcomma (rec (WriteValue (VObj T a)) js)
      | VObj T a \<Rightarrow> then_needcomma (rec (WriteValue2_defobject T a) js)
      | VVector t cont \<Rightarrow>
          then_needcomma
            (if cont = [] then (Normal, put ''[]'' js) else writeArray_body rec cont js)
      | VMap t a \<Rightarrow> then_needcomma (rec (WriteObject (MapClass t) False a) js))"

definition writeValue2_defobject_body ::
  "wrec \<Rightarrow> JsonClasses \<Rightarrow> tyid \<Rightarrow> addr \<Rightarrow> JsonSerial \<Rightarrow> outcome \<times> JsonSerial" where
  "writeValue2_defobject_body rec classes T obj js =
     (let tinfo = typeid_of js T obj in
      case getClassT classes tinfo of
        None \<Rightarrow> error UnknownClass tinfo True js
      | Some cl \<Rightarrow> rec (WriteObject cl (tinfo \<noteq> T) obj) js)"

definition classname_of :: "MetaClass \<Rightarrow> string" where
  "classname_of cl = (case cl of MapClass t \<Rightarrow> ''std::map'' | ObjectClass cn sups cr ms pr \<Rightarrow> cn)"

definition writeObject_body ::
  "wrec \<Rightarrow> MetaClass \<Rightarrow> bool \<Rightarrow> addr \<Rightarrow> JsonSerial \<Rightarrow> outcome \<times> JsonSerial" where
  "writeObject_body rec cl is_derived_class obj js =
     (case (if sharing js then object_to_id js obj else None) of
        Some i \<Rightarrow> (Normal, put ([dq] @ ''@'' @ to_string i @ [dq]) js)
      | None \<Rightarrow>
          (let js1 = (if sharing js then
                        js\<lparr>current_object_id := current_object_id js + 1,
                           object_to_id := (object_to_id js)(obj \<mapsto> current_object_id js + 1)\<rparr>
                      else js);
               js2 = addTab (put (''{'' @ [nl]) (js1\<lparr>needcomma := False\<rparr>));
               js3 = (if is_derived_class then
                        put ([dq] @ ''@class'' @ [dq] @ '': '' @ [dq] @ classname_of cl @
                             [dq] @ '','' @ [nl]) (writeTabs js2)
                      else js2);
               js4 = (if sharing js3 then
                        put ([dq] @ ''@id'' @ [dq] @ '': '' @ [dq] @
                             to_string (current_object_id js3) @ [dq] @ '','' @ [nl])
                          (writeTabs js3)
                      else js3)
           in case rec (WriteMembers cl obj) js4 of
                (Normal, js5) \<Rightarrow>
                  (Normal, (put ''}'' (writeTabs (put [nl] (removeTab js5))))\<lparr>needcomma := True\<rparr>)
              | r \<Rightarrow> r))"

text \<open>\<^verbatim>\<open>ObjectClass<T>::writeMembers\<close> and \<^verbatim>\<open>MapClass<T>::writeMembers\<close>.\<close>

definition writeMembers_body ::
  "wrec \<Rightarrow> MetaClass \<Rightarrow> addr \<Rightarrow> JsonSerial \<Rightarrow> outcome \<times> JsonSerial" where
  "writeMembers_body rec cl obj js =
     (case cl of
        ObjectClass cn sups cr ms pr \<Rightarrow>
          (case for_each (\<lambda>it js. rec (WriteMembers (super it) (upcast it obj)) js) sups js of
             (Normal, js') \<Rightarrow>
               for_each (\<lambda>it js.
                   rec (WriteValue (get_field js obj (variable it)))
                     (member_label (name it) (comma js)))
                 ms js'
           | r \<Rightarrow> r)
      | MapClass t \<Rightarrow>
          for_each (\<lambda>it js. rec (WriteValue (snd it)) (member_label (fst it) (comma js)))
            (map_entries js obj) js)"

primrec writer :: "nat \<Rightarrow> JsonClasses \<Rightarrow> wreq \<Rightarrow> JsonSerial \<Rightarrow> outcome \<times> JsonSerial" where
  "writer 0 classes r js = (OutOfFuel, js)"
| "writer (Suc n) classes r js =
     (case r of
        WriteValue v \<Rightarrow> writeValue_body (writer n classes) v js
      | WriteValue2_defobject T obj \<Rightarrow>
          writeValue2_defobject_body (writer n classes) classes T obj js
      | WriteObject cl d obj \<Rightarrow> writeObject_body (writer n classes) cl d obj js
      | WriteMembers cl obj \<Rightarrow> writeMembers_body (writer n classes) cl obj js)"

declare writer.simps [simp del]

definition writeValue :: "nat \<Rightarrow> JsonClasses \<Rightarrow> val \<Rightarrow> JsonSerial \<Rightarrow> outcome \<times> JsonSerial" where
  "writeValue n classes v js = writer n classes (WriteValue v) js"

definition writeObject ::
  "nat \<Rightarrow> JsonClasses \<Rightarrow> MetaClass \<Rightarrow> bool \<Rightarrow> addr \<Rightarrow> JsonSerial \<Rightarrow> outcome \<times> JsonSerial" where
  "writeObject n classes cl is_derived_class obj js =
     writer n classes (WriteObject cl is_derived_class obj) js"

definition writeMembers ::
  "nat \<Rightarrow> JsonClasses \<Rightarrow> MetaClass \<Rightarrow> addr \<Rightarrow> JsonSerial \<Rightarrow> outcome \<times> JsonSerial" where
  "writeMembers n classes cl obj js = writer n classes (WriteMembers cl obj) js"

text \<open>
  \<^verbatim>\<open>JsonSerial::write(object, out, name, line)\<close>: the engine is reset, the value is
  written, and \<^verbatim>\<open>"\n" << std::endl\<close> ends the output.  A \<^verbatim>\<open>JsonError*\<close> is caught and
  makes the result \<^verbatim>\<open>false\<close>; the result is \<^verbatim>\<open>!jsonerror_\<close> otherwise.
\<close>

definition JsonSerial_write :: "nat \<Rightarrow> JsonClasses \<Rightarrow> val \<Rightarrow> string \<Rightarrow> nat \<Rightarrow> JsonSerial
    \<Rightarrow> outcome \<times> bool \<times> JsonSerial" where
  "JsonSerial_write n classes object outp ln js =
     (case writeValue n classes object (reset ln [] outp js) of
        (Normal, js') \<Rightarrow>
          (let js'' = put [nl, nl] js' in (Normal, jsonerror js'' = None, js''))
      | (Thrown JsonErrorExn, js') \<Rightarrow> (Normal, False, js')
      | (oc, js') \<Rightarrow> (oc, False, js'))"

subsection \<open>\<^verbatim>\<open>strtoul\<close> and \<^verbatim>\<open>std::stoul\<close> (\<^verbatim>\<open>unsigned long\<close> of 64 bits)\<close>

definition ULONG_MAX :: nat where "ULONG_MAX = 2 ^ 64 - 1"

definition digit_of :: "char \<Rightarrow> nat option" where
  "digit_of c =
     (let k = (of_char c :: nat) in
      if 48 \<le> k \<and> k \<le> 57 then Some (k - 48)
      else if 97 \<le> k \<and> k \<le> 122 then Some (k - 87)
      else if 65 \<le> k \<and> k \<le> 90 then Some (k - 55)
      else None)"

fun take_digits :: "nat \<Rightarrow> string \<Rightarrow> nat list" where
  "take_digits base [] = []"
| "take_digits base (c # cs) =
     (case digit_of c of
        Some d \<Rightarrow> (if d < base then d # take_digits base cs else [])
      | None \<Rightarrow> [])"

definition has_hex_prefix :: "string \<Rightarrow> bool" where
  "has_hex_prefix s =
     (case s of
        z # x # h # _ \<Rightarrow>
          z = CHR ''0'' \<and> (x = CHR ''x'' \<or> x = CHR ''X'')
          \<and> (case digit_of h of Some d \<Rightarrow> d < 16 | None \<Rightarrow> False)
      | _ \<Rightarrow> False)"

text \<open>The result is the value, whether a conversion was made, and whether it overflowed.\<close>

definition strtoul :: "string \<Rightarrow> nat \<Rightarrow> nat \<times> bool \<times> bool" where
  "strtoul nptr base =
     (let s1 = dropWhile isspace nptr;
          neg = (tok0 s1 = CHR ''-'');
          s2 = (if tok0 s1 = CHR ''-'' \<or> tok0 s1 = CHR ''+'' then tl s1 else s1);
          b = (if base = 0 then
                 (if has_hex_prefix s2 then 16 else if tok0 s2 = CHR ''0'' then 8 else 10)
               else base);
          s3 = (if b = 16 \<and> has_hex_prefix s2 then drop 2 s2 else s2);
          ds = take_digits b s3;
          v = foldl (\<lambda>acc d. acc * b + d) 0 ds
      in if ds = [] then (0, False, False)
         else if v > ULONG_MAX then (ULONG_MAX, True, True)
         else (if neg then (2 ^ 64 - v) mod 2 ^ 64 else v, True, False))"

definition stoul :: "string \<Rightarrow> exn + nat" where
  "stoul str =
     (case strtoul (c_str str) 10 of
        (v, conv, erange) \<Rightarrow>
          if \<not> conv then Inl StdInvalidArgument
          else if erange then Inl StdOutOfRange
          else Inr v)"

subsection \<open>Reader (jsonimpl.hpp, vector.hpp, list.hpp)\<close>

definition alloc :: "cell \<Rightarrow> JsonSerial \<Rightarrow> addr \<times> JsonSerial" where
  "alloc c js = (brk js, js\<lparr>store := (store js)(brk js \<mapsto> c), brk := brk js + 1\<rparr>)"

text \<open>A value-initialised \<^verbatim>\<open>E{}\<close>; a map is an object of its own, at a new address.\<close>

definition default_val :: "ty \<Rightarrow> JsonSerial \<Rightarrow> val \<times> JsonSerial" where
  "default_val t js =
     (case t of
        TString \<Rightarrow> (VString [], js)
      | TPtr T \<Rightarrow> (VPtr T None, js)
      | TVector e \<Rightarrow> (VVector e [], js)
      | TMap e \<Rightarrow> (let (a, js') = alloc (MapCell e []) js in (VMap e a, js')))"

text \<open>\<^verbatim>\<open>std::map\<close> keeps its entries in the order of the keys; \<^verbatim>\<open>m[key] = v\<close>.\<close>

fun map_insert :: "string \<Rightarrow> val \<Rightarrow> (string \<times> val) list \<Rightarrow> (string \<times> val) list" where
  "map_insert k v [] = [(k, v)]"
| "map_insert k v (e # es) =
     (if k = fst e then (k, v) # es
      else if k < fst e then (k, v) # e # es
      else e # map_insert k v es)"

definition map_put :: "addr \<Rightarrow> string \<Rightarrow> val \<Rightarrow> JsonSerial \<Rightarrow> JsonSerial" where
  "map_put a k v js =
     (case store js a of
        Some (MapCell t es) \<Rightarrow> js\<lparr>store := (store js)(a \<mapsto> MapCell t (map_insert k v es))\<rparr>
      | _ \<Rightarrow> js)"

text \<open>\<^verbatim>\<open>cr->create()\<close>, and \<^verbatim>\<open>MetaClass::create()\<close> of a class descriptor.\<close>

definition create :: "Creator \<Rightarrow> JsonSerial \<Rightarrow> addr option \<times> JsonSerial" where
  "create cr js =
     (case cr of None \<Rightarrow> (None, js) | Some c \<Rightarrow> (let (a, js') = alloc c js in (Some a, js')))"

definition class_create :: "MetaClass \<Rightarrow> JsonSerial \<Rightarrow> addr option \<times> JsonSerial" where
  "class_create cl js =
     (case cl of
        ObjectClass cn sups cr ms pr \<Rightarrow>
          (case cr of None \<Rightarrow> (None, js) | Some c \<Rightarrow> create c js)
      | MapClass t \<Rightarrow> (let (a, js') = alloc (MapCell t []) js in (Some a, js')))"

definition doPostRead :: "MetaClass \<Rightarrow> addr option \<Rightarrow> JsonSerial \<Rightarrow> JsonSerial" where
  "doPostRead cl obj js =
     (case cl of
        ObjectClass cn sups cr ms pr \<Rightarrow>
          (case (obj, pr) of
             (Some a, Some f) \<Rightarrow>
               (case store js a of Some c \<Rightarrow> js\<lparr>store := (store js)(a \<mapsto> f c)\<rparr> | None \<Rightarrow> js)
           | _ \<Rightarrow> js)
      | MapClass t \<Rightarrow> js)"

definition getMember :: "Member list \<Rightarrow> string \<Rightarrow> Member option" where
  "getMember ms varname = find (\<lambda>m. name m = varname) ms"

definition getCheckedClass ::
  "JsonClasses \<Rightarrow> tyid \<Rightarrow> JsonSerial \<Rightarrow> outcome \<times> MetaClass option \<times> JsonSerial" where
  "getCheckedClass classes tinfo js =
     (case getClassT classes tinfo of
        None \<Rightarrow> (let (oc, js') = error UnknownClass tinfo True js in (oc, None, js'))
      | Some cl \<Rightarrow> (Normal, Some cl, js))"

text \<open>
  The functions of the reader call each other; as for the writer, each call spends one
  unit of a budget.  A call is a request \<open>rreq\<close>, its result an answer \<open>rans\<close> of the
  kind that the called function returns.
\<close>

datatype rreq =
  ReadValue val string
  | ReadObject "MetaClass option" MetaClass "Creator option" "addr option" string
  | ReadObject_loop "MetaClass option" MetaClass "Creator option" "addr option"
  | ReadMember MetaClass addr string string
  | ReadArray_loop ty "val list"

datatype rans = AVal val | APtr "addr option" | ABool bool | AList "val list"

type_synonym rfuns = "rreq \<Rightarrow> JsonSerial \<Rightarrow> outcome \<times> rans \<times> JsonSerial"

definition the_val :: "rans \<Rightarrow> val" where
  "the_val a = (case a of AVal v \<Rightarrow> v | _ \<Rightarrow> VString [])"

definition the_ptr :: "rans \<Rightarrow> addr option" where
  "the_ptr a = (case a of APtr p \<Rightarrow> p | _ \<Rightarrow> None)"

definition the_bool :: "rans \<Rightarrow> bool" where
  "the_bool a = (case a of ABool b \<Rightarrow> b | _ \<Rightarrow> False)"

definition the_list :: "rans \<Rightarrow> val list" where
  "the_list a = (case a of AList vs \<Rightarrow> vs | _ \<Rightarrow> [])"

definition r_readValue :: "rfuns \<Rightarrow> val \<Rightarrow> string \<Rightarrow> JsonSerial \<Rightarrow> outcome \<times> val \<times> JsonSerial" where
  "r_readValue rec var s js = (case rec (ReadValue var s) js of (oc, a, js') \<Rightarrow> (oc, the_val a, js'))"

definition r_readObject :: "rfuns \<Rightarrow> MetaClass option \<Rightarrow> MetaClass \<Rightarrow> Creator option
    \<Rightarrow> addr option \<Rightarrow> string \<Rightarrow> JsonSerial \<Rightarrow> outcome \<times> addr option \<times> JsonSerial" where
  "r_readObject rec objclass pointerclass cr obj s js =
     (case rec (ReadObject objclass pointerclass cr obj s) js of
        (oc, a, js') \<Rightarrow> (oc, the_ptr a, js'))"

definition r_readObject_loop :: "rfuns \<Rightarrow> MetaClass option \<Rightarrow> MetaClass \<Rightarrow> Creator option
    \<Rightarrow> addr option \<Rightarrow> JsonSerial \<Rightarrow> outcome \<times> addr option \<times> JsonSerial" where
  "r_readObject_loop rec objclass pointerclass cr obj js =
     (case rec (ReadObject_loop objclass pointerclass cr obj) js of
        (oc, a, js') \<Rightarrow> (oc, the_ptr a, js'))"

definition r_readMember :: "rfuns \<Rightarrow> MetaClass \<Rightarrow> addr \<Rightarrow> string \<Rightarrow> string
    \<Rightarrow> JsonSerial \<Rightarrow> outcome \<times> bool \<times> JsonSerial" where
  "r_readMember rec cl obj nam val js =
     (case rec (ReadMember cl obj nam val) js of (oc, a, js') \<Rightarrow> (oc, the_bool a, js'))"

definition r_readArray_loop :: "rfuns \<Rightarrow> ty \<Rightarrow> val list \<Rightarrow> JsonSerial
    \<Rightarrow> outcome \<times> val list \<times> JsonSerial" where
  "r_readArray_loop rec t cont js =
     (case rec (ReadArray_loop t cont) js of (oc, a, js') \<Rightarrow> (oc, the_list a, js'))"

text \<open>\<^verbatim>\<open>readPointee<T>\<close> for an object pointed to by a raw pointer.\<close>

definition readPointee :: "rfuns \<Rightarrow> JsonClasses \<Rightarrow> tyid \<Rightarrow> Creator option \<Rightarrow> string
    \<Rightarrow> JsonSerial \<Rightarrow> outcome \<times> addr option \<times> JsonSerial" where
  "readPointee rec classes T cr s js =
     (case getCheckedClass classes T js of
        (Normal, Some pointerclass, js') \<Rightarrow> r_readObject rec None pointerclass cr None s js'
      | (oc, _, js') \<Rightarrow> (oc, None, js'))"

text \<open>
  \<^verbatim>\<open>readArray\<close>, entered from \<^verbatim>\<open>readValue2\<close> after the constructor of \<^verbatim>\<open>JsonArrayImpl\<close>
  has cleared the container.
\<close>

definition readArray :: "rfuns \<Rightarrow> ty \<Rightarrow> string \<Rightarrow> JsonSerial
    \<Rightarrow> outcome \<times> val list \<times> JsonSerial" where
  "readArray rec t s js =
     (if s \<noteq> ''['' then
        (let (oc, js') = error ExpectingBracket [] True js in (oc, [], js'))
      else r_readArray_loop rec t [] js)"

definition readArray_loop_body :: "rfuns \<Rightarrow> ty \<Rightarrow> val list \<Rightarrow> JsonSerial
    \<Rightarrow> outcome \<times> val list \<times> JsonSerial" where
  "readArray_loop_body rec t cont js =
     (if \<not> in_good js then (Normal, cont, js)
      else
        (case readLine False js of
           (Normal, tok, dump, f1, f2, js1) \<Rightarrow>
             (if \<not> f1 then
                (let (oc, js2) = error ExpectingValueOrBracket [] True js1 in (oc, cont, js2))
              else if tok = '']'' then (Normal, cont, js1)
              else
                (let (e, js2) = default_val t js1 in
                 case r_readValue rec e tok js2 of
                   (Normal, e', js3) \<Rightarrow> r_readArray_loop rec t (cont @ [e']) js3
                 | (oc, e', js3) \<Rightarrow> (oc, cont @ [e'], js3)))
         | (oc, tok, dump, f1, f2, js1) \<Rightarrow> (oc, cont, js1)))"

definition readValue_body :: "rfuns \<Rightarrow> JsonClasses \<Rightarrow> val \<Rightarrow> string \<Rightarrow> JsonSerial
    \<Rightarrow> outcome \<times> val \<times> JsonSerial" where
  "readValue_body rec classes var s js =
     (case var of
        VString old \<Rightarrow> (Normal, VString s, js)
      | VPtr T old \<Rightarrow>
          (if s \<noteq> ''null'' then
             (case readPointee rec classes T None s js of
                (Normal, p, js') \<Rightarrow> (Normal, VPtr T p, js')
              | (oc, p, js') \<Rightarrow> (oc, VPtr T None, js'))
           else (Normal, VPtr T None, js))
      | VObj T obj \<Rightarrow>
          (case getCheckedClass classes (typeid_of js T obj) js of
             (Normal, Some wanted_class, js') \<Rightarrow>
               (case r_readObject rec (Some wanted_class) wanted_class None (Some obj) s js' of
                  (oc, p, js'') \<Rightarrow> (oc, VObj T obj, js''))
           | (oc, _, js') \<Rightarrow> (oc, VObj T obj, js'))
      | VVector t old \<Rightarrow>
          (case readArray rec t s js of (oc, cont, js') \<Rightarrow> (oc, VVector t cont, js'))
      | VMap t obj \<Rightarrow>
          (case r_readObject rec (Some (MapClass t)) (MapClass t) None (Some obj) s js of
             (oc, p, js') \<Rightarrow> (oc, VMap t obj, js')))"

definition readObject_body :: "rfuns \<Rightarrow> MetaClass option \<Rightarrow> MetaClass \<Rightarrow> Creator option
    \<Rightarrow> addr option \<Rightarrow> string \<Rightarrow> JsonSerial \<Rightarrow> outcome \<times> addr option \<times> JsonSerial" where
  "readObject_body rec objclass pointerclass cr obj s js =
     (if s = [] then (let (oc, js') = error ExpectingBrace [] True js in (oc, obj, js'))
      else if tok0 s = CHR ''@'' then
        (case id_to_object js (fst (strtoul (tl (c_str s)) 0)) of
           None \<Rightarrow> (let (oc, js') = error InvalidID [] True js in (oc, obj, js'))
         | Some raw \<Rightarrow> (Normal, Some raw, js))
      else if s \<noteq> ''{'' then (let (oc, js') = error ExpectingBrace [] True js in (oc, obj, js'))
      else r_readObject_loop rec objclass pointerclass cr obj js)"

text \<open>The part of the loop body that runs while no class is pinned.\<close>

definition pin_class :: "JsonClasses \<Rightarrow> MetaClass \<Rightarrow> Creator option \<Rightarrow> addr option
    \<Rightarrow> string \<Rightarrow> string \<Rightarrow> JsonSerial \<Rightarrow> outcome \<times> MetaClass option \<times> addr option \<times> JsonSerial" where
  "pin_class classes pointerclass cr obj nam val js =
     (case (if nam \<noteq> ''@class'' then Some pointerclass else getClass classes val) of
        None \<Rightarrow> (let (oc, js') = error UnknownClass val True js in (oc, None, obj, js'))
      | Some cl \<Rightarrow>
          (let (obj', js') =
                 (if obj = None then
                    (case cr of Some c \<Rightarrow> create c js | None \<Rightarrow> class_create cl js)
                  else (obj, js))
           in if obj' = None then
                (let (oc, js'') = error AbstractClass (classname_of cl) True js'
                 in (oc, Some cl, obj', js''))
              else (Normal, Some cl, obj', js')))"

definition readObject_member :: "rfuns \<Rightarrow> MetaClass \<Rightarrow> addr option \<Rightarrow> string \<Rightarrow> string
    \<Rightarrow> JsonSerial \<Rightarrow> outcome \<times> JsonSerial" where
  "readObject_member rec cl obj nam val js =
     (case r_readMember rec cl (case obj of Some a \<Rightarrow> a | None \<Rightarrow> 0) nam val js of
        (Normal, found, js') \<Rightarrow>
          (if \<not> found then
             error UnknownMember
               ([sq] @ nam @ [sq] @ '' in class '' @ [sq] @ classname_of cl @ [sq]) False js'
           else (Normal, js'))
      | (Thrown StdInvalidArgument, found, js') \<Rightarrow>
          error InvalidValue (val @ '' for member '' @ [sq] @ nam @ [sq]) True js'
      | (oc, found, js') \<Rightarrow> (oc, js'))"

definition readObject_loop_body :: "rfuns \<Rightarrow> JsonClasses \<Rightarrow> MetaClass option \<Rightarrow> MetaClass
    \<Rightarrow> Creator option \<Rightarrow> addr option \<Rightarrow> JsonSerial \<Rightarrow> outcome \<times> addr option \<times> JsonSerial" where
  "readObject_loop_body rec classes objclass pointerclass cr obj js =
     (if \<not> in_good js then
        (let (oc, js') = error PrematureEOF [] True js in (oc, None, js'))
      else
        (case readLine True js of
           (Normal, nam, val, f1, f2, js1) \<Rightarrow>
             (if \<not> f1 \<or> (\<not> f2 \<and> nam \<noteq> ''}'') then
                (let (oc, js2) = error ExpectingPairOrBrace [] True js1 in (oc, obj, js2))
              else if tok0 nam = CHR ''@'' \<and> nam \<noteq> ''@class'' \<and> nam \<noteq> ''@id'' then
                (let (oc, js2) = error WrongKeyword val True js1 in (oc, obj, js2))
              else
                (case (case objclass of
                         None \<Rightarrow> pin_class classes pointerclass cr obj nam val js1
                       | Some cl \<Rightarrow> (Normal, objclass, obj, js1)) of
                   (Normal, Some cl, obj', js2) \<Rightarrow>
                     (if objclass = None \<and> nam = ''@class'' then
                        r_readObject_loop rec (Some cl) pointerclass cr obj' js2
                      else if nam = ''}'' then (Normal, obj', doPostRead cl obj' js2)
                      else if nam = ''@id'' then
                        (case stoul val of
                           Inl e \<Rightarrow> (Thrown e, obj', js2)
                         | Inr i \<Rightarrow>
                             r_readObject_loop rec (Some cl) pointerclass cr obj'
                               (js2\<lparr>id_to_object := (id_to_object js2)(i := obj')\<rparr>))
                      else
                        (case readObject_member rec cl obj' nam val js2 of
                           (Normal, js3) \<Rightarrow> r_readObject_loop rec (Some cl) pointerclass cr obj' js3
                         | (oc, js3) \<Rightarrow> (oc, obj', js3)))
                 | (oc, cl, obj', js2) \<Rightarrow> (oc, obj', js2)))
         | (oc, nam, val, f1, f2, js1) \<Rightarrow> (oc, obj, js1)))"

text \<open>\<^verbatim>\<open>Member::read\<close> of the two member descriptors.\<close>

definition member_read :: "rfuns \<Rightarrow> JsonClasses \<Rightarrow> Member \<Rightarrow> addr \<Rightarrow> string \<Rightarrow> JsonSerial
    \<Rightarrow> outcome \<times> JsonSerial" where
  "member_read rec classes mb obj val js =
     (case (mb, get_field js obj (variable mb)) of
        (InstanceMemberWithCreator n var c, VPtr T old) \<Rightarrow>
          (let js1 = set_field obj var (VPtr T None) js in
           if val \<noteq> ''null'' then
             (case readPointee rec classes T (Some c) val js1 of
                (Normal, p, js2) \<Rightarrow> (Normal, set_field obj var (VPtr T p) js2)
              | (oc, p, js2) \<Rightarrow> (oc, js2))
           else (Normal, js1))
      | (_, var) \<Rightarrow>
          (case r_readValue rec var val js of
             (oc, v, js') \<Rightarrow> (oc, set_field obj (variable mb) v js')))"

primrec search_superclasses :: "rfuns \<Rightarrow> Superclass list \<Rightarrow> addr \<Rightarrow> string \<Rightarrow> string
    \<Rightarrow> JsonSerial \<Rightarrow> outcome \<times> bool \<times> JsonSerial" where
  "search_superclasses rec [] obj nam val js = (Normal, False, js)"
| "search_superclasses rec (it # its) obj nam val js =
     (case r_readMember rec (super it) (upcast it obj) nam val js of
        (Normal, False, js') \<Rightarrow> search_superclasses rec its obj nam val js'
      | r \<Rightarrow> r)"

text \<open>\<^verbatim>\<open>ObjectClass<T>::readMember\<close> and \<^verbatim>\<open>MapClass<T>::readMember\<close>.\<close>

definition readMember_body :: "rfuns \<Rightarrow> JsonClasses \<Rightarrow> MetaClass \<Rightarrow> addr \<Rightarrow> string \<Rightarrow> string
    \<Rightarrow> JsonSerial \<Rightarrow> outcome \<times> bool \<times> JsonSerial" where
  "readMember_body rec classes cl obj nam val js =
     (case cl of
        ObjectClass cn sups cr ms pr \<Rightarrow>
          (case getMember ms nam of
             Some mb \<Rightarrow>
               (case member_read rec classes mb obj val js of (oc, js') \<Rightarrow> (oc, True, js'))
           | None \<Rightarrow> search_superclasses rec sups obj nam val js)
      | MapClass t \<Rightarrow>
          (let (e, js1) = default_val t js in
           case r_readValue rec e val (map_put obj nam e js1) of
             (oc, e', js2) \<Rightarrow> (oc, True, map_put obj nam e' js2)))"

primrec reader :: "nat \<Rightarrow> JsonClasses \<Rightarrow> rreq \<Rightarrow> JsonSerial \<Rightarrow> outcome \<times> rans \<times> JsonSerial" where
  "reader 0 classes r js =
     (OutOfFuel,
      (case r of
         ReadValue var s \<Rightarrow> AVal var
       | ReadObject objclass pointerclass cr obj s \<Rightarrow> APtr obj
       | ReadObject_loop objclass pointerclass cr obj \<Rightarrow> APtr obj
       | ReadMember cl obj nam val \<Rightarrow> ABool False
       | ReadArray_loop t cont \<Rightarrow> AList cont),
      js)"
| "reader (Suc n) classes r js =
     (case r of
        ReadValue var s \<Rightarrow>
          (case readValue_body (reader n classes) classes var s js of
             (oc, v, js') \<Rightarrow> (oc, AVal v, js'))
      | ReadObject objclass pointerclass cr obj s \<Rightarrow>
          (case readObject_body (reader n classes) objclass pointerclass cr obj s js of
             (oc, p, js') \<Rightarrow> (oc, APtr p, js'))
      | ReadObject_loop objclass pointerclass cr obj \<Rightarrow>
          (case readObject_loop_body (reader n classes) classes objclass pointerclass cr obj js of
             (oc, p, js') \<Rightarrow> (oc, APtr p, js'))
      | ReadMember cl obj nam val \<Rightarrow>
          (case readMember_body (reader n classes) classes cl obj nam val js of
             (oc, b, js') \<Rightarrow> (oc, ABool b, js'))
      | ReadArray_loop t cont \<Rightarrow>
          (case readArray_loop_body (reader n classes) t cont js of
             (oc, vs, js') \<Rightarrow> (oc, AList vs, js')))"

declare reader.simps [simp del]

definition readValue :: "nat \<Rightarrow> JsonClasses \<Rightarrow> val \<Rightarrow> string \<Rightarrow> JsonSerial
    \<Rightarrow> outcome \<times> val \<times> JsonSerial" where
  "readValue n classes = r_readValue (reader n classes)"

definition readObject :: "nat \<Rightarrow> JsonClasses \<Rightarrow> MetaClass option \<Rightarrow> MetaClass
    \<Rightarrow> Creator option \<Rightarrow> addr option \<Rightarrow> string
    \<Rightarrow> JsonSerial \<Rightarrow> outcome \<times> addr option \<times> JsonSerial" where
  "readObject n classes = r_readObject (reader n classes)"

definition readMember :: "nat \<Rightarrow> JsonClasses \<Rightarrow> MetaClass \<Rightarrow> addr \<Rightarrow> string \<Rightarrow> string
    \<Rightarrow> JsonSerial \<Rightarrow> outcome \<times> bool \<times> JsonSerial" where
  "readMember n classes = r_readMember (reader n classes)"

text \<open>
  \<^verbatim>\<open>JsonSerial::read(object, in, name, line)\<close>.  The result holds the value of \<open>object\<close>
  after the call, also when the call failed.
\<close>

definition JsonSerial_read :: "nat \<Rightarrow> JsonClasses \<Rightarrow> val \<Rightarrow> string \<Rightarrow> nat \<Rightarrow> JsonSerial
    \<Rightarrow> outcome \<times> bool \<times> val \<times> JsonSerial" where
  "JsonSerial_read n classes object inp ln js =
     (case (case readLine True (reset ln inp (ostream js) js) of
              (Normal, keyword, dump, f1, f2, js1) \<Rightarrow>
                (if f1 then readValue n classes object keyword js1
                 else (let (oc, js2) = error NoData [] True js1 in (oc, object, js2)))
            | (oc, keyword, dump, f1, f2, js1) \<Rightarrow> (oc, object, js1)) of
        (Normal, v, js') \<Rightarrow> (Normal, jsonerror js' = None, v, js')
      | (Thrown JsonErrorExn, v, js') \<Rightarrow> (Normal, False, v, js')
      | (oc, v, js') \<Rightarrow> (oc, False, v, js'))"

subsection \<open>Construction and configuration of the engine\<close>

text \<open>
  The constructor of \<^verbatim>\<open>JsonSerial\<close> with the default member initialisers; the program's
  memory is given to it.
\<close>

definition JsonSerial_ctor :: "(addr \<Rightarrow> cell option) \<Rightarrow> addr \<Rightarrow> JsonSerial" where
  "JsonSerial_ctor mem b =
     \<lparr>istream = [], in_good = True, ostream = [], allow = Comments, needcomma = False,
      in_multiquotes = False, sharing = False, lineno = 0, indent = 2, level = 0,
      tabchar = CHR '' '', tabs = [], current_object_id = 0, object_to_id = Map.empty,
      id_to_object = Map.empty, jsonerror = None, reported = [], store = mem, brk = b\<rparr>"

definition setSharing :: "bool \<Rightarrow> JsonSerial \<Rightarrow> JsonSerial" where
  "setSharing mode js = js\<lparr>sharing := mode\<rparr>"

text \<open>\<^verbatim>\<open>allow_\<close> is an \<^verbatim>\<open>unsigned char\<close>.\<close>

definition setSyntax :: "nat \<Rightarrow> JsonSerial \<Rightarrow> JsonSerial" where
  "setSyntax mode js = js\<lparr>allow := mode mod 256\<rparr>"

definition setIndent :: "char \<Rightarrow> nat \<Rightarrow> JsonSerial \<Rightarrow> JsonSerial" where
  "setIndent c tabcount js = js\<lparr>tabchar := c, indent := tabcount\<rparr>"

subsection \<open>The class of the scenarios: \<^verbatim>\<open>P{type, number}\<close>\<close>

definition P_class :: MetaClass where
  "P_class = ObjectClass ''P'' [] (Some (Some (Obj ''P'' (\<lambda>f. VString []))))
     [InstanceMember ''type'' ''type'', InstanceMember ''number'' ''number''] None"

definition P_classes :: JsonClasses where
  "P_classes = \<lparr>classindexes = [(''P'', P_class)], classnames = [(''P'', P_class)]\<rparr>"

definition P_object :: "string \<Rightarrow> string \<Rightarrow> cell" where
  "P_object t n = Obj ''P'' ((\<lambda>f. VString [])(''type'' := VString t, ''number'' := VString n))"

definition quoted :: "string \<Rightarrow> string" where
  "quoted s = [dq] @ s @ [dq]"

subsection \<open>Two runs of the reader on stores that differ in one map\<close>



subsection \<open>Documents and classes of the scenarios\<close>

definition doc_unknown_member :: string where
  "doc_unknown_member = ''{'' @ quoted ''type'' @ '':'' @ quoted ''home'' @ '','' @ quoted ''extra''
      @ '':'' @ quoted ''x'' @ '','' @ quoted ''number'' @ '':'' @ quoted ''1'' @ ''}''"

text \<open>The same document with an empty object as the value of the member \<^verbatim>\<open>extra\<close>.\<close>

definition doc_unknown_nested :: string where
  "doc_unknown_nested = ''{'' @ quoted ''type'' @ '':'' @ quoted ''home'' @ '','' @ quoted ''extra''
      @ '':{},'' @ quoted ''number'' @ '':'' @ quoted ''1'' @ ''}''"

text \<open>A document whose member \<^verbatim>\<open>type\<close> has the unquoted value \<^verbatim>\<open>}x\<close>.\<close>

definition doc_bare_closer :: string where
  "doc_bare_closer =
     ''{'' @ quoted ''type'' @ '':}x,'' @ quoted ''number'' @ '':'' @ quoted ''1'' @ ''}''"

text \<open>A class whose constructor thunk is present and returns null.\<close>

definition Q_class :: MetaClass where
  "Q_class = ObjectClass ''Q'' [] (Some None) [InstanceMember ''type'' ''type''] None"

definition Q_classes :: JsonClasses where
  "Q_classes = \<lparr>classindexes = [(''Q'', Q_class)], classnames = [(''Q'', Q_class)]\<rparr>"

subsection \<open>Budgets\<close>

text \<open>
  A run with a larger budget extends a run with a smaller one: \<open>wle\<close> and \<open>rle\<close> compare
  two versions of the writer and of the reader on the calls that the first one completes.
\<close>

definition wle :: "wrec \<Rightarrow> wrec \<Rightarrow> bool" where
  "wle rec1 rec2 \<longleftrightarrow> (\<forall>r js oc js'. rec1 r js = (oc, js') \<and> oc \<noteq> OutOfFuel \<longrightarrow> rec2 r js = (oc, js'))"

definition rle :: "rfuns \<Rightarrow> rfuns \<Rightarrow> bool" where
  "rle rec1 rec2 \<longleftrightarrow>
     (\<forall>r js oc a js'. rec1 r js = (oc, a, js') \<and> oc \<noteq> OutOfFuel \<longrightarrow> rec2 r js = (oc, a, js'))"

text \<open>
  The number of nested calls of \<^verbatim>\<open>readMember\<close> or \<^verbatim>\<open>writeMembers\<close> that a class needs: the
  depth of its hierarchy of superclasses.
\<close>

fun height :: "MetaClass \<Rightarrow> nat"
and heights :: "Superclass list \<Rightarrow> nat" where
  "height (ObjectClass cn sups cr ms pr) = Suc (heights sups)"
| "height (MapClass t) = 1"
| "heights [] = 0"
| "heights (Superclass cl up # its) = max (height cl) (heights its)"

subsection \<open>The order of the members, as the documentation states it\<close>

text \<open>
  \<open>members_base_first cl obj\<close> lists the members that are written for the object \<open>obj\<close> of
  class \<open>cl\<close>, each with the address of the (sub)object that holds it: the members of the
  superclasses, in the order of the \<^verbatim>\<open>extends\<close> declarations and recursively, and then the
  members of the class itself.
\<close>

fun members_base_first :: "MetaClass \<Rightarrow> addr \<Rightarrow> (Member \<times> addr) list"
and members_of_bases :: "Superclass list \<Rightarrow> addr \<Rightarrow> (Member \<times> addr) list" where
  "members_base_first (ObjectClass cn sups cr ms pr) obj =
     members_of_bases sups obj @ map (\<lambda>m. (m, obj)) ms"
| "members_base_first (MapClass t) obj = []"
| "members_of_bases [] obj = []"
| "members_of_bases (Superclass cl up # its) obj =
     members_base_first cl (up obj) @ members_of_bases its obj"

text \<open>The classes made by \<^verbatim>\<open>defclass\<close>, all of whose superclasses are made by it too.\<close>

fun is_object_class :: "MetaClass \<Rightarrow> bool"
and are_object_classes :: "Superclass list \<Rightarrow> bool" where
  "is_object_class (ObjectClass cn sups cr ms pr) = are_object_classes sups"
| "is_object_class (MapClass t) = False"
| "are_object_classes [] = True"
| "are_object_classes (Superclass cl up # its) = (is_object_class cl \<and> are_object_classes its)"

text \<open>Writing one member: the separator, the name and the value.\<close>

definition write_member :: "nat \<Rightarrow> JsonClasses \<Rightarrow> Member \<times> addr \<Rightarrow> JsonSerial
    \<Rightarrow> outcome \<times> JsonSerial" where
  "write_member n classes ma js =
     writeValue n classes (get_field js (snd ma) (variable (fst ma)))
       (member_label (name (fst ma)) (comma js))"

text \<open>
  \<open>lookup_member cl obj nam\<close> is the member that the name \<open>nam\<close> denotes in class \<open>cl\<close>: a
  member of the class itself if there is one; if not, the member found in the first
  superclass, in the order of the declarations, in which the lookup succeeds, with the
  address of the object converted to that superclass.
\<close>

fun lookup_member :: "MetaClass \<Rightarrow> addr \<Rightarrow> string \<Rightarrow> (Member \<times> addr) option"
and lookup_in_bases :: "Superclass list \<Rightarrow> addr \<Rightarrow> string \<Rightarrow> (Member \<times> addr) option" where
  "lookup_member (ObjectClass cn sups cr ms pr) obj nam =
     (case getMember ms nam of
        Some m \<Rightarrow> Some (m, obj)
      | None \<Rightarrow> lookup_in_bases sups obj nam)"
| "lookup_member (MapClass t) obj nam = None"
| "lookup_in_bases [] obj nam = None"
| "lookup_in_bases (Superclass cl up # its) obj nam =
     (case lookup_member cl (up obj) nam of
        Some r \<Rightarrow> Some r
      | None \<Rightarrow> lookup_in_bases its obj nam)"

text \<open>
  \<open>found_as n classes r val js res\<close>: the result \<open>res\<close> of reading a member is the one that
  the lookup \<open>r\<close> prescribes.  If no member was found, nothing is read and the result is
  \<^verbatim>\<open>false\<close>; if a member was found, the value is read into that member and the result is
  \<^verbatim>\<open>true\<close>.
\<close>

definition found_as :: "nat \<Rightarrow> JsonClasses \<Rightarrow> (Member \<times> addr) option \<Rightarrow> string \<Rightarrow> JsonSerial
    \<Rightarrow> outcome \<times> bool \<times> JsonSerial \<Rightarrow> bool" where
  "found_as n classes r val js res =
     (case r of
        None \<Rightarrow> res = (Normal, False, js)
      | Some ma \<Rightarrow>
          fst (snd res) \<and>
          member_read (reader n classes) classes (fst ma) (snd ma) val js = (fst res, snd (snd res)))"

subsection \<open>A class with two superclasses\<close>

text \<open>
  \<^verbatim>\<open>D\<close> extends \<^verbatim>\<open>A\<close> and then \<^verbatim>\<open>B\<close>.  The name \<^verbatim>\<open>y\<close> is a member of both superclasses and
  the name \<^verbatim>\<open>z\<close> of \<^verbatim>\<open>B\<close> and of \<^verbatim>\<open>D\<close>.  The \<^verbatim>\<open>A\<close> part of an object of class \<^verbatim>\<open>D\<close> begins at
  the address of the object, the \<^verbatim>\<open>B\<close> part at the next address.
\<close>

definition A_class :: MetaClass where
  "A_class = ObjectClass ''A'' [] None
     [InstanceMember ''x'' ''ax'', InstanceMember ''y'' ''ay''] None"

definition B_class :: MetaClass where
  "B_class = ObjectClass ''B'' [] None
     [InstanceMember ''y'' ''by'', InstanceMember ''z'' ''bz''] None"

definition D_class :: MetaClass where
  "D_class = ObjectClass ''D'' [Superclass A_class (\<lambda>a. a), Superclass B_class Suc] None
     [InstanceMember ''z'' ''dz''] None"

definition D_classes :: JsonClasses where
  "D_classes = \<lparr>classindexes = [(''A'', A_class), (''B'', B_class), (''D'', D_class)],
     classnames = [(''A'', A_class), (''B'', B_class), (''D'', D_class)]\<rparr>"

definition D_store :: "addr \<Rightarrow> cell option" where
  "D_store =
     [1 \<mapsto> Obj ''D'' ((\<lambda>f. VString [])(''ax'' := VString ''1'', ''ay'' := VString ''2'',
             ''dz'' := VString ''5'')),
      2 \<mapsto> Obj ''B'' ((\<lambda>f. VString [])(''by'' := VString ''3'', ''bz'' := VString ''4''))]"

subsection \<open>Shared objects\<close>

text \<open>
  The part of \<^verbatim>\<open>writeObject\<close> that runs before the members of an object are written when the
  object is not in the table \<^verbatim>\<open>object_to_id_\<close> (and with sharing off): the counter is
  incremented and its value recorded for the address when sharing is on, then the open
  brace, the \<^verbatim>\<open>@class\<close> member of an object of a derived class and, with sharing on, the
  \<^verbatim>\<open>@id\<close> member are written.  \<open>object_end\<close> is the part that runs after the members.
  The counter is an \<^verbatim>\<open>unsigned long\<close> and addresses are 64 bits wide, so that the counter
  does not wrap; in the model both are natural numbers.
\<close>

definition first_sight :: "MetaClass \<Rightarrow> bool \<Rightarrow> addr \<Rightarrow> JsonSerial \<Rightarrow> JsonSerial" where
  "first_sight cl is_derived_class obj js =
     (let js1 = (if sharing js then
                   js\<lparr>current_object_id := current_object_id js + 1,
                      object_to_id := (object_to_id js)(obj \<mapsto> current_object_id js + 1)\<rparr>
                 else js);
          js2 = addTab (put (''{'' @ [nl]) (js1\<lparr>needcomma := False\<rparr>));
          js3 = (if is_derived_class then
                   put ([dq] @ ''@class'' @ [dq] @ '': '' @ [dq] @ classname_of cl @
                        [dq] @ '','' @ [nl]) (writeTabs js2)
                 else js2)
      in if sharing js3 then
           put ([dq] @ ''@id'' @ [dq] @ '': '' @ [dq] @
                to_string (current_object_id js3) @ [dq] @ '','' @ [nl])
             (writeTabs js3)
         else js3)"

definition object_end :: "JsonSerial \<Rightarrow> JsonSerial" where
  "object_end js = (put ''}'' (writeTabs (put [nl] (removeTab js))))\<lparr>needcomma := True\<rparr>"

text \<open>
  \<open>ids_ok\<close>: the ids in the table are the numbers from 1 to the counter, and two addresses
  never have the same id.
\<close>

definition ids_ok :: "JsonSerial \<Rightarrow> bool" where
  "ids_ok js \<longleftrightarrow>
     ran (object_to_id js) = {1..current_object_id js}
     \<and> inj_on (object_to_id js) (dom (object_to_id js))"

text \<open>
  \<open>keeps_ids js js'\<close> relates the state before and after a run of the writer: the sharing mode
  is the same, every address in the table keeps its id, the counter has not decreased,
  \<open>ids_ok\<close> is kept and the output has only been appended to.  \<open>same_ids\<close> is the case where
  the table and the counter are not changed at all.
\<close>

definition keeps_ids :: "JsonSerial \<Rightarrow> JsonSerial \<Rightarrow> bool" where
  "keeps_ids js js' \<longleftrightarrow>
     sharing js' = sharing js
     \<and> object_to_id js \<subseteq>\<^sub>m object_to_id js'
     \<and> current_object_id js \<le> current_object_id js'
     \<and> (ids_ok js \<longrightarrow> ids_ok js')
     \<and> (\<exists>s. ostream js' = ostream js @ s)"

definition same_ids :: "JsonSerial \<Rightarrow> JsonSerial \<Rightarrow> bool" where
  "same_ids js js' \<longleftrightarrow>
     sharing js' = sharing js \<and> object_to_id js' = object_to_id js
     \<and> current_object_id js' = current_object_id js
     \<and> (\<exists>s. ostream js' = ostream js @ s)"

definition wkeeps :: "wrec \<Rightarrow> bool" where
  "wkeeps rec \<longleftrightarrow> (\<forall>r js oc js'. rec r js = (oc, js') \<longrightarrow> keeps_ids js js')"

text \<open>A vector of two pointers to the same object.\<close>

definition twice :: val where
  "twice = VVector (TPtr ''P'') [VPtr ''P'' (Some 1), VPtr ''P'' (Some 1)]"

section \<open>Properties\<close>

lemmas char_defs = dq_def bsl_def nl_def sq_def

lemmas config_defs = JsonSerial_ctor_def setSharing_def setSyntax_def setIndent_def
  allows_def Comments_def NoQuotes_def NoCommas_def Newlines_def

lemmas scenario_defs = P_classes_def P_class_def P_object_def quoted_def
  doc_unknown_member_def Q_classes_def Q_class_def

lemmas tokenizer_defs = readLine_def get_def iteration_def switch_part_def comment_check_def
  iscntrl_def isspace_def peek_def putback_def separator_def closer_def opener_def in_quoted_def
  checked1_def checked2_def checkValue_def trimRight_def tok0_def isNumber_def c_str_def
  isdigit_def at_eof_def readEscape_def escaped_def invalid_char_def error_def

lemmas writer_defs = writer.simps writeValue_def writeValue_body_def writeValue2_defobject_body_def
  writeObject_body_def writeMembers_body_def writeArray_body_def then_needcomma_def
  member_label_def comma_def writeString_def writeTabs_def addTab_def removeTab_def put_def
  typeid_of_def get_field_def getClassT_def classname_of_def escape_out_def c_str_def
  map_entries_def

lemmas reader_defs = reader.simps readValue_def r_readValue_def r_readObject_def
  r_readObject_loop_def r_readMember_def r_readArray_loop_def the_val_def the_ptr_def
  the_bool_def the_list_def readValue_body_def readObject_body_def readObject_loop_body_def
  readMember_body_def readArray_loop_body_def readArray_def readPointee_def getCheckedClass_def
  pin_class_def readObject_member_def member_read_def getMember_def doPostRead_def create_def
  class_create_def alloc_def default_val_def map_put_def set_field_def get_field_def
  typeid_of_def getClassT_def getClass_def classname_of_def stoul_def strtoul_def

subsection \<open>Bare value tokens\<close>

text \<open>
  What \<^verbatim>\<open>checkValue\<close> does on a value token, after it has trimmed trailing white space.  When
  \<^verbatim>\<open>NoQuotes\<close> is set, every token is accepted without a check.  In the other dialects the
  token is accepted when it is one of \<^verbatim>\<open>null\<close>, \<^verbatim>\<open>true\<close>, \<^verbatim>\<open>false\<close> or passes \<^verbatim>\<open>isNumber\<close>, and also
  when it is empty or its first character is \<^verbatim>\<open>}\<close> or \<^verbatim>\<open>]\<close>: the guard that lets the closing
  brace and bracket through tests \<^verbatim>\<open>token[0]\<close> only.  Any other token throws a \<^verbatim>\<open>JsonError\<close>
  reported as \<^verbatim>\<open>InvalidValue\<close>.
\<close>

lemma checkValue_accepts:
  "(allows js NoQuotes \<longrightarrow> checkValue token False js = (Normal, trimRight token, js))
   \<and> (\<not> allows js NoQuotes \<longrightarrow>
        (fst (checkValue token False js) = Normal
           \<longleftrightarrow> (trimRight token = [] \<or> tok0 (trimRight token) = CHR ''}''
                \<or> tok0 (trimRight token) = CHR '']''
                \<or> trimRight token \<in> {''null'', ''true'', ''false''}
                \<or> isNumber (trimRight token)))
        \<and> (fst (checkValue token False js) \<noteq> Normal \<longrightarrow>
             fst (checkValue token False js) = Thrown JsonErrorExn
             \<and> map etype (reported (snd (snd (checkValue token False js))))
                 = map etype (reported js) @ [InvalidValue]))"
  by (auto simp: checkValue_def Let_def error_def)

text \<open>
  In the strict dialect the tokenizer accepts the bare value \<^verbatim>\<open>}x\<close> of the input
  \<^verbatim>\<open>"a":}x,\<close>, which is none of \<^verbatim>\<open>null\<close>, \<^verbatim>\<open>true\<close>, \<^verbatim>\<open>false\<close> or a number.
\<close>

lemma readLine_bare_closer:
  "\<not> allows (setSyntax 0 (JsonSerial_ctor Map.empty 1)) NoQuotes
   \<and> readLine True ((setSyntax 0 (JsonSerial_ctor Map.empty 1))\<lparr>istream := quoted ''a'' @ '':}x,''\<rparr>)
       = (Normal, ''a'', ''}x'', True, True, setSyntax 0 (JsonSerial_ctor Map.empty 1))
   \<and> ''}x'' \<notin> {''null'', ''true'', ''false''} \<and> \<not> isNumber ''}x''"
  by (simp add: readLine_loop.simps tokenizer_defs char_defs config_defs quoted_def)

subsection \<open>Scenario 1: a single object\<close>

text \<open>
  C3 (as amended).  Writing an object of the registered class \<^verbatim>\<open>P\<close> with the string members
  \<^verbatim>\<open>type = "home"\<close> and \<^verbatim>\<open>number = "212"\<close>, with sharing off and the indentation (space, 2),
  succeeds and appends to the stream the open brace, a newline, the two name/value pairs
  indented by two spaces and separated by a comma and a newline, a newline, the close
  brace, and two newlines (\<^verbatim>\<open>"\n"\<close> and \<^verbatim>\<open>std::endl\<close>).
\<close>

theorem write_single_object:
  assumes "sharing js = False" and "indent js = 2" and "tabchar js = CHR '' ''"
    and "store js a = Some (P_object ''home'' ''212'')"
  shows "JsonSerial_write (5 + n) P_classes (VObj ''P'' a) outp ln js =
     (Normal, True,
      (reset ln [] outp js)\<lparr>ostream := outp @ ''{'' @ [nl] @ ''  '' @ quoted ''type'' @ '': ''
          @ quoted ''home'' @ '','' @ [nl] @ ''  '' @ quoted ''number'' @ '': '' @ quoted ''212''
          @ [nl] @ ''}'' @ [nl, nl],
        needcomma := True\<rparr>)"
  using assms
  by (simp add: JsonSerial_write_def reset_def writer_defs scenario_defs char_defs
        eval_nat_numeral)

theorem write_single_object_witness:
  "ostream (snd (snd (JsonSerial_write 5 P_classes (VObj ''P'' 1) [] 1
      (setIndent CHR '' '' 2 (setSharing False
         (JsonSerial_ctor [1 \<mapsto> P_object ''home'' ''212''] 2))))))
   = ''{'' @ [nl] @ ''  '' @ quoted ''type'' @ '': '' @ quoted ''home'' @ '','' @ [nl]
      @ ''  '' @ quoted ''number'' @ '': '' @ quoted ''212'' @ [nl] @ ''}'' @ [nl, nl]"
  using write_single_object [of "setIndent CHR '' '' 2 (setSharing False
         (JsonSerial_ctor [1 \<mapsto> P_object ''home'' ''212''] 2))" 1 0 "[]" 1]
  by (simp add: config_defs)

text \<open>The output does not end after one newline.\<close>

theorem write_single_object_counterexample:
  "ostream (snd (snd (JsonSerial_write 5 P_classes (VObj ''P'' 1) [] 1
      (setIndent CHR '' '' 2 (setSharing False
         (JsonSerial_ctor [1 \<mapsto> P_object ''home'' ''212''] 2))))))
   \<noteq> ''{'' @ [nl] @ ''  '' @ quoted ''type'' @ '': '' @ quoted ''home'' @ '','' @ [nl]
      @ ''  '' @ quoted ''number'' @ '': '' @ quoted ''212'' @ [nl] @ ''}'' @ [nl]"
  by (simp add: JsonSerial_write_def reset_def writer_defs scenario_defs char_defs config_defs
        eval_nat_numeral)

subsection \<open>The tokenizer does not depend on the store\<close>

lemma peek_store [simp]: "peek (js\<lparr>store := st\<rparr>) = peek js"
  by (simp add: peek_def)

lemma allows_store [simp]: "allows (js\<lparr>store := st\<rparr>) f = allows js f"
  by (simp add: allows_def)

lemma separator_store [simp]: "separator (js\<lparr>store := st\<rparr>) c = separator js c"
  by (simp add: separator_def)



















lemma r_readMember_Suc:
  "r_readMember (reader (Suc n) classes) cl obj nam val js =
     readMember_body (reader n classes) classes cl obj nam val js"
  by (simp add: r_readMember_def the_bool_def split_beta reader.simps)




lemma r_zero:
  "r_readObject_loop (reader 0 classes) objclass pc cr obj js = (OutOfFuel, obj, js)"
  "r_readMember (reader 0 classes) cl a nam val js = (OutOfFuel, False, js)"
  "r_readValue (reader 0 classes) var s js = (OutOfFuel, var, js)"
  "r_readObject (reader 0 classes) objclass pc cr obj s js = (OutOfFuel, obj, js)"
  "r_readArray_loop (reader 0 classes) t cont js = (OutOfFuel, cont, js)"
  by (simp_all add: r_readObject_loop_def r_readMember_def r_readValue_def r_readObject_def
        r_readArray_loop_def the_ptr_def the_bool_def the_val_def the_list_def reader.simps)



subsection \<open>Creating the object\<close>

text \<open>
  C6 (as amended).  When a class is pinned and the target object does not exist yet, the
  reader calls a constructor thunk: the creator thunk supplied by the caller when there
  is one, and the default constructor of the class descriptor only when there is none.
  If both thunks are null, or if the thunk that is called returns null, it raises
  \<^verbatim>\<open>AbstractClass\<close> with the name of the class; otherwise the object is the one the thunk
  created.
\<close>

theorem pin_class_create:
  assumes "(if nam \<noteq> ''@class'' then Some pointerclass else getClass classes val)
             = Some (ObjectClass cn sups ccr ms pr)"
  shows "(\<forall>c. cr = Some (Some c) \<longrightarrow>
            pin_class classes pointerclass cr None nam val js
              = (Normal, Some (ObjectClass cn sups ccr ms pr), Some (brk js), snd (alloc c js)))
    \<and> (\<forall>c. cr = None \<and> ccr = Some (Some c) \<longrightarrow>
            pin_class classes pointerclass cr None nam val js
              = (Normal, Some (ObjectClass cn sups ccr ms pr), Some (brk js), snd (alloc c js)))
    \<and> ((cr = None \<and> ccr = None) \<or> cr = Some None \<or> (cr = None \<and> ccr = Some None) \<longrightarrow>
            pin_class classes pointerclass cr None nam val js
              = (Thrown JsonErrorExn, Some (ObjectClass cn sups ccr ms pr), None,
                 snd (error AbstractClass cn True js)))"
  using assms
  by (auto simp: pin_class_def create_def class_create_def alloc_def classname_of_def error_def
        Let_def)

theorem pin_class_create_witness:
  "(if ''type'' \<noteq> ''@class'' then Some Q_class else getClass Q_classes ''x'')
     = Some (ObjectClass ''Q'' [] (Some None) [InstanceMember ''type'' ''type''] None)
   \<and> pin_class Q_classes Q_class (Some (Some (P_object [] []))) None ''type'' ''x''
        (JsonSerial_ctor Map.empty 1)
      = (Normal, Some Q_class, Some 1, snd (alloc (P_object [] []) (JsonSerial_ctor Map.empty 1)))
   \<and> fst (pin_class Q_classes Q_class None None ''type'' ''x'' (JsonSerial_ctor Map.empty 1))
      = Thrown JsonErrorExn"
  using pin_class_create [of "''type''" Q_class Q_classes "''x''" "''Q''" "[]" "Some None"
      "[InstanceMember ''type'' ''type'']" None "Some (Some (P_object [] []))"
      "JsonSerial_ctor Map.empty 1"]
    pin_class_create [of "''type''" Q_class Q_classes "''x''" "''Q''" "[]" "Some None"
      "[InstanceMember ''type'' ''type'']" None None "JsonSerial_ctor Map.empty 1"]
  by (simp add: Q_class_def config_defs)

text \<open>
  Reading \<^verbatim>\<open>{}\<close> into a null pointer to a class whose constructor thunk returns null
  fails with the single error \<^verbatim>\<open>AbstractClass\<close>, not \<^verbatim>\<open>CantCreateObject\<close>.
\<close>

theorem create_object_counterexample:
  "(case JsonSerial_read 5 Q_classes (VPtr ''Q'' None) ''{}'' 1 (JsonSerial_ctor Map.empty 1) of
      (oc, ok, v, js') \<Rightarrow> (oc, ok, v, map etype (reported js')))
   = (Normal, False, VPtr ''Q'' None, [AbstractClass])
   \<and> AbstractClass \<noteq> CantCreateObject"
  by (simp add: JsonSerial_read_def reset_def reader_defs readLine_loop.simps tokenizer_defs
        char_defs config_defs scenario_defs eval_nat_numeral Let_def)

subsection \<open>Reading into a map\<close>















subsection \<open>Reading into a sequence container\<close>





subsection \<open>A larger budget gives the same result\<close>

text \<open>The writer.\<close>

lemma wleD: "wle rec1 rec2 \<Longrightarrow> rec1 r js = (oc, js') \<Longrightarrow> oc \<noteq> OutOfFuel \<Longrightarrow> rec2 r js = (oc, js')"
  by (auto simp: wle_def)

lemma for_each_mono:
  assumes "\<And>it js oc js'. f1 it js = (oc, js') \<Longrightarrow> oc \<noteq> OutOfFuel \<Longrightarrow> f2 it js = (oc, js')"
    and "for_each f1 xs js = (oc, js')" and "oc \<noteq> OutOfFuel"
  shows "for_each f2 xs js = (oc, js')"
  using assms(2,3)
proof (induction xs arbitrary: js)
  case Nil
  then show ?case by simp
next
  case (Cons x xs)
  obtain oc1 js1 where f: "f1 x js = (oc1, js1)" by (cases "f1 x js") auto
  show ?case
  proof (cases "oc1 = OutOfFuel")
    case True
    with f Cons.prems show ?thesis by simp
  next
    case False
    with f assms(1) have f2: "f2 x js = (oc1, js1)" by blast
    show ?thesis
    proof (cases "oc1 = Normal")
      case True
      with f f2 Cons show ?thesis by simp
    next
      case False
      with f f2 Cons.prems \<open>oc1 \<noteq> OutOfFuel\<close> show ?thesis by (cases oc1) auto
    qed
  qed
qed

lemma then_needcomma_mono:
  "r1 = (oc0, js0) \<Longrightarrow> (oc0 \<noteq> OutOfFuel \<Longrightarrow> r2 = (oc0, js0)) \<Longrightarrow>
   then_needcomma r1 = (oc, js') \<Longrightarrow> oc \<noteq> OutOfFuel \<Longrightarrow> then_needcomma r2 = (oc, js')"
  by (cases oc0) (auto simp: then_needcomma_def)

lemma writeArray_body_mono:
  assumes "wle rec1 rec2" and "writeArray_body rec1 cont js = (oc, js')" and "oc \<noteq> OutOfFuel"
  shows "writeArray_body rec2 cont js = (oc, js')"
proof -
  let ?f = "\<lambda>rec it js. rec (WriteValue it)
                 ((writeTabs (if needcomma js then put ('','' @ [nl]) js else js))
                    \<lparr>needcomma := False\<rparr>)"
  let ?js0 = "addTab (put (''['' @ [nl]) (js\<lparr>needcomma := False\<rparr>))"
  obtain oc1 js1 where f: "for_each (?f rec1) cont ?js0 = (oc1, js1)"
    by (cases "for_each (?f rec1) cont ?js0") auto
  from f assms(2,3) have ne: "oc1 \<noteq> OutOfFuel"
    by (cases oc1) (auto simp: writeArray_body_def)
  have "for_each (?f rec2) cont ?js0 = (oc1, js1)"
    by (rule for_each_mono [OF _ f ne]) (erule (1) wleD [OF assms(1)])
  with f assms(2) show ?thesis by (simp add: writeArray_body_def)
qed

lemma writeValue_body_mono:
  assumes "wle rec1 rec2" and "writeValue_body rec1 v js = (oc, js')" and "oc \<noteq> OutOfFuel"
  shows "writeValue_body rec2 v js = (oc, js')"
proof (cases v)
  case (VString s)
  with assms show ?thesis by (simp add: writeValue_body_def)
next
  case (VPtr T p)
  show ?thesis
  proof (cases p)
    case None
    with VPtr assms show ?thesis by (simp add: writeValue_body_def)
  next
    case (Some a)
    obtain oc0 js0 where r: "rec1 (WriteValue (VObj T a)) js = (oc0, js0)"
      by (cases "rec1 (WriteValue (VObj T a)) js") auto
    from then_needcomma_mono [OF r wleD [OF assms(1) r]] VPtr Some assms(2,3)
    show ?thesis by (simp add: writeValue_body_def)
  qed
next
  case (VObj T a)
  obtain oc0 js0 where r: "rec1 (WriteValue2_defobject T a) js = (oc0, js0)"
    by (cases "rec1 (WriteValue2_defobject T a) js") auto
  from then_needcomma_mono [OF r wleD [OF assms(1) r]] VObj assms(2,3)
  show ?thesis by (simp add: writeValue_body_def)
next
  case (VVector t cont)
  show ?thesis
  proof (cases "cont = []")
    case True
    with VVector assms show ?thesis by (simp add: writeValue_body_def)
  next
    case False
    obtain oc0 js0 where r: "writeArray_body rec1 cont js = (oc0, js0)"
      by (cases "writeArray_body rec1 cont js") auto
    from then_needcomma_mono [OF r writeArray_body_mono [OF assms(1) r]] VVector False assms(2,3)
    show ?thesis by (simp add: writeValue_body_def)
  qed
next
  case (VMap t a)
  obtain oc0 js0 where r: "rec1 (WriteObject (MapClass t) False a) js = (oc0, js0)"
    by (cases "rec1 (WriteObject (MapClass t) False a) js") auto
  from then_needcomma_mono [OF r wleD [OF assms(1) r]] VMap assms(2,3)
  show ?thesis by (simp add: writeValue_body_def)
qed

lemma writeValue2_defobject_body_mono:
  assumes "wle rec1 rec2" and "writeValue2_defobject_body rec1 classes T a js = (oc, js')"
    and "oc \<noteq> OutOfFuel"
  shows "writeValue2_defobject_body rec2 classes T a js = (oc, js')"
  using assms
  by (auto simp: writeValue2_defobject_body_def Let_def split: option.splits dest: wleD)

lemma writeObject_body_mono:
  assumes "wle rec1 rec2" and "writeObject_body rec1 cl d obj js = (oc, js')"
    and "oc \<noteq> OutOfFuel"
  shows "writeObject_body rec2 cl d obj js = (oc, js')"
proof (cases "if sharing js then object_to_id js obj else None")
  case (Some i)
  with assms show ?thesis by (simp add: writeObject_body_def)
next
  case None
  define js1 where "js1 = (if sharing js then
                        js\<lparr>current_object_id := current_object_id js + 1,
                           object_to_id := (object_to_id js)(obj \<mapsto> current_object_id js + 1)\<rparr>
                      else js)"
  define js2 where "js2 = addTab (put (''{'' @ [nl]) (js1\<lparr>needcomma := False\<rparr>))"
  define js3 where "js3 = (if d then
                        put ([dq] @ ''@class'' @ [dq] @ '': '' @ [dq] @ classname_of cl @
                             [dq] @ '','' @ [nl]) (writeTabs js2)
                      else js2)"
  define js4 where "js4 = (if sharing js3 then
                        put ([dq] @ ''@id'' @ [dq] @ '': '' @ [dq] @
                             to_string (current_object_id js3) @ [dq] @ '','' @ [nl])
                          (writeTabs js3)
                      else js3)"
  have body: "\<And>rec. writeObject_body rec cl d obj js =
      (case rec (WriteMembers cl obj) js4 of
                (Normal, js5) \<Rightarrow>
                  (Normal, (put ''}'' (writeTabs (put [nl] (removeTab js5))))\<lparr>needcomma := True\<rparr>)
              | r \<Rightarrow> r)"
    using None unfolding writeObject_body_def js1_def js2_def js3_def js4_def
    by (simp add: Let_def)
  obtain oc0 js0 where r: "rec1 (WriteMembers cl obj) js4 = (oc0, js0)"
    by (cases "rec1 (WriteMembers cl obj) js4") auto
  with assms(2,3) have "oc0 \<noteq> OutOfFuel" by (cases oc0) (auto simp: body)
  with wleD [OF assms(1) r] have "rec2 (WriteMembers cl obj) js4 = (oc0, js0)" by simp
  with r assms(2) show ?thesis by (simp add: body)
qed

lemma writeMembers_body_mono:
  assumes "wle rec1 rec2" and "writeMembers_body rec1 cl obj js = (oc, js')"
    and "oc \<noteq> OutOfFuel"
  shows "writeMembers_body rec2 cl obj js = (oc, js')"
proof (cases cl)
  case (MapClass t)
  let ?f = "\<lambda>rec it js. rec (WriteValue (snd it)) (member_label (fst it) (comma js))"
  have "for_each (?f rec2) (map_entries js obj) js = (oc, js')"
    by (rule for_each_mono [of "?f rec1"])
       (use assms MapClass in \<open>auto simp: writeMembers_body_def dest: wleD\<close>)
  with MapClass show ?thesis by (simp add: writeMembers_body_def)
next
  case (ObjectClass cn sups cr ms pr)
  let ?s = "\<lambda>rec it js. rec (WriteMembers (super it) (upcast it obj)) js"
  let ?m = "\<lambda>rec it js. rec (WriteValue (get_field js obj (variable it)))
                     (member_label (name it) (comma js))"
  obtain oc1 js1 where s1: "for_each (?s rec1) sups js = (oc1, js1)"
    by (cases "for_each (?s rec1) sups js") auto
  with assms(2,3) ObjectClass have ne: "oc1 \<noteq> OutOfFuel"
    by (cases oc1) (auto simp: writeMembers_body_def)
  have s2: "for_each (?s rec2) sups js = (oc1, js1)"
    by (rule for_each_mono [OF _ s1 ne]) (erule (1) wleD [OF assms(1)])
  show ?thesis
  proof (cases "oc1 = Normal")
    case True
    with s1 assms(2) ObjectClass have m1: "for_each (?m rec1) ms js1 = (oc, js')"
      by (simp add: writeMembers_body_def)
    have "for_each (?m rec2) ms js1 = (oc, js')"
      by (rule for_each_mono [OF _ m1 assms(3)]) (erule (1) wleD [OF assms(1)])
    with True s2 ObjectClass show ?thesis by (simp add: writeMembers_body_def)
  next
    case False
    with s1 s2 assms(2) ObjectClass show ?thesis
      by (cases oc1) (auto simp add: writeMembers_body_def)
  qed
qed

lemma writer_Suc:
  "writer (Suc n) classes (WriteValue v) js = writeValue_body (writer n classes) v js"
  "writer (Suc n) classes (WriteValue2_defobject T obj) js =
     writeValue2_defobject_body (writer n classes) classes T obj js"
  "writer (Suc n) classes (WriteObject cl d obj) js = writeObject_body (writer n classes) cl d obj js"
  "writer (Suc n) classes (WriteMembers cl obj) js = writeMembers_body (writer n classes) cl obj js"
  by (simp_all add: writer.simps)

lemma writer_Suc_mono: "wle (writer n classes) (writer (Suc n) classes)"
proof (induction n)
  case 0
  show ?case by (simp add: wle_def writer.simps)
next
  case (Suc n)
  show ?case
    unfolding wle_def
  proof (intro allI impI, elim conjE)
    fix r js oc js'
    assume a: "writer (Suc n) classes r js = (oc, js')" and ne: "oc \<noteq> OutOfFuel"
    show "writer (Suc (Suc n)) classes r js = (oc, js')"
    proof (cases r)
      case (WriteValue v)
      with a have "writeValue_body (writer n classes) v js = (oc, js')"
        by (simp only: writer_Suc)
      from writeValue_body_mono [OF Suc this ne] WriteValue show ?thesis
        by (simp only: writer_Suc)
    next
      case (WriteValue2_defobject T obj)
      with a have "writeValue2_defobject_body (writer n classes) classes T obj js = (oc, js')"
        by (simp only: writer_Suc)
      from writeValue2_defobject_body_mono [OF Suc this ne] WriteValue2_defobject show ?thesis
        by (simp only: writer_Suc)
    next
      case (WriteObject cl d obj)
      with a have "writeObject_body (writer n classes) cl d obj js = (oc, js')"
        by (simp only: writer_Suc)
      from writeObject_body_mono [OF Suc this ne] WriteObject show ?thesis
        by (simp only: writer_Suc)
    next
      case (WriteMembers cl obj)
      with a have "writeMembers_body (writer n classes) cl obj js = (oc, js')"
        by (simp only: writer_Suc)
      from writeMembers_body_mono [OF Suc this ne] WriteMembers show ?thesis
        by (simp only: writer_Suc)
    qed
  qed
qed

lemma writer_mono:
  assumes "writer n classes r js = (oc, js')" and "oc \<noteq> OutOfFuel" and "n \<le> m"
  shows "writer m classes r js = (oc, js')"
  using assms(3,1)
proof (induction m)
  case 0
  then show ?case by simp
next
  case (Suc m)
  show ?case
  proof (cases "n = Suc m")
    case True
    with Suc show ?thesis by simp
  next
    case False
    with Suc have "writer m classes r js = (oc, js')" by simp
    from wleD [OF writer_Suc_mono this assms(2)] show ?thesis .
  qed
qed

text \<open>The reader.\<close>

lemma r_readValue_mono:
  "rle rec1 rec2 \<Longrightarrow> r_readValue rec1 v s js = (oc, v', js') \<Longrightarrow> oc \<noteq> OutOfFuel \<Longrightarrow>
   r_readValue rec2 v s js = (oc, v', js')"
  by (auto simp: rle_def r_readValue_def split: prod.splits)

lemma r_readObject_mono:
  "rle rec1 rec2 \<Longrightarrow> r_readObject rec1 c pc cr obj s js = (oc, p, js') \<Longrightarrow> oc \<noteq> OutOfFuel \<Longrightarrow>
   r_readObject rec2 c pc cr obj s js = (oc, p, js')"
  by (auto simp: rle_def r_readObject_def split: prod.splits)

lemma r_readObject_loop_mono:
  "rle rec1 rec2 \<Longrightarrow> r_readObject_loop rec1 c pc cr obj js = (oc, p, js') \<Longrightarrow> oc \<noteq> OutOfFuel \<Longrightarrow>
   r_readObject_loop rec2 c pc cr obj js = (oc, p, js')"
  by (auto simp: rle_def r_readObject_loop_def split: prod.splits)

lemma r_readMember_mono:
  "rle rec1 rec2 \<Longrightarrow> r_readMember rec1 cl obj nam val js = (oc, b, js') \<Longrightarrow> oc \<noteq> OutOfFuel \<Longrightarrow>
   r_readMember rec2 cl obj nam val js = (oc, b, js')"
  by (auto simp: rle_def r_readMember_def split: prod.splits)

lemma r_readArray_loop_mono:
  "rle rec1 rec2 \<Longrightarrow> r_readArray_loop rec1 t cont js = (oc, vs, js') \<Longrightarrow> oc \<noteq> OutOfFuel \<Longrightarrow>
   r_readArray_loop rec2 t cont js = (oc, vs, js')"
  by (auto simp: rle_def r_readArray_loop_def split: prod.splits)

lemma readPointee_mono:
  "rle rec1 rec2 \<Longrightarrow> readPointee rec1 classes T cr s js = (oc, p, js') \<Longrightarrow> oc \<noteq> OutOfFuel \<Longrightarrow>
   readPointee rec2 classes T cr s js = (oc, p, js')"
  by (auto simp: readPointee_def split: prod.splits outcome.splits option.splits
        dest: r_readObject_mono)

lemma readArray_mono:
  "rle rec1 rec2 \<Longrightarrow> readArray rec1 t s js = (oc, vs, js') \<Longrightarrow> oc \<noteq> OutOfFuel \<Longrightarrow>
   readArray rec2 t s js = (oc, vs, js')"
  by (auto simp: readArray_def split: if_splits dest: r_readArray_loop_mono)

lemma readArray_loop_body_mono:
  assumes "rle rec1 rec2" and "readArray_loop_body rec1 t cont js = (oc, vs, js')"
    and "oc \<noteq> OutOfFuel"
  shows "readArray_loop_body rec2 t cont js = (oc, vs, js')"
proof (cases "in_good js")
  case False
  with assms show ?thesis by (simp add: readArray_loop_body_def)
next
  case True
  obtain ocl tok dump f1 f2 js1 where rl: "readLine False js = (ocl, tok, dump, f1, f2, js1)"
    by (cases "readLine False js") auto
  show ?thesis
  proof (cases "ocl = Normal \<and> f1 \<and> tok \<noteq> '']''")
    case False
    with True rl assms(2) show ?thesis
      by (cases ocl) (auto simp: readArray_loop_body_def)
  next
    case c: True
    obtain e js2 where d: "default_val t js1 = (e, js2)" by (cases "default_val t js1") auto
    obtain oc1 e' js3 where v: "r_readValue rec1 e tok js2 = (oc1, e', js3)"
      by (cases "r_readValue rec1 e tok js2") auto
    have body: "\<And>rec. readArray_loop_body rec t cont js =
        (case r_readValue rec e tok js2 of
           (Normal, e', js3) \<Rightarrow> r_readArray_loop rec t (cont @ [e']) js3
         | (oc, e', js3) \<Rightarrow> (oc, cont @ [e'], js3))"
      using True rl c d by (simp add: readArray_loop_body_def)
    from v assms(2,3) have ne: "oc1 \<noteq> OutOfFuel" by (cases oc1) (auto simp: body)
    from r_readValue_mono [OF assms(1) v ne] have v2: "r_readValue rec2 e tok js2 = (oc1, e', js3)" .
    show ?thesis
    proof (cases "oc1 = Normal")
      case True
      with v assms(2) have "r_readArray_loop rec1 t (cont @ [e']) js3 = (oc, vs, js')"
        by (simp add: body)
      from r_readArray_loop_mono [OF assms(1) this assms(3)] v2 True show ?thesis
        by (simp add: body)
    next
      case False
      with v v2 assms(2) show ?thesis by (cases oc1) (auto simp: body)
    qed
  qed
qed

lemma readValue_body_mono:
  assumes "rle rec1 rec2" and "readValue_body rec1 classes var s js = (oc, v, js')"
    and "oc \<noteq> OutOfFuel"
  shows "readValue_body rec2 classes var s js = (oc, v, js')"
proof (cases var)
  case (VString old)
  with assms show ?thesis by (auto simp add: readValue_body_def)
next
  case (VPtr T old)
  obtain oc1 p js1 where r: "readPointee rec1 classes T None s js = (oc1, p, js1)"
    by (cases "readPointee rec1 classes T None s js") auto
  show ?thesis
  proof (cases "s = ''null''")
    case True
    with VPtr assms show ?thesis by (auto simp add: readValue_body_def)
  next
    case False
    with r VPtr assms(2,3) have ne: "oc1 \<noteq> OutOfFuel"
      by (cases oc1) (auto simp: readValue_body_def)
    from readPointee_mono [OF assms(1) r ne] r VPtr False assms(2) show ?thesis
      by (auto simp add: readValue_body_def)
  qed
next
  case (VObj T obj)
  obtain oc0 c js0 where g: "getCheckedClass classes (typeid_of js T obj) js = (oc0, c, js0)"
    by (cases "getCheckedClass classes (typeid_of js T obj) js") auto
  show ?thesis
  proof (cases "oc0 = Normal \<and> c \<noteq> None")
    case False
    with g VObj assms(2) show ?thesis
      by (cases oc0; cases c) (auto simp: readValue_body_def)
  next
    case True
    then obtain wanted where c: "c = Some wanted" "oc0 = Normal" by auto
    obtain oc1 p js1 where r: "r_readObject rec1 (Some wanted) wanted None (Some obj) s js0 = (oc1, p, js1)"
      by (cases "r_readObject rec1 (Some wanted) wanted None (Some obj) s js0") auto
    with g c VObj assms(2,3) have ne: "oc1 \<noteq> OutOfFuel" by (auto simp: readValue_body_def)
    from r_readObject_mono [OF assms(1) r ne] r g c VObj assms(2) show ?thesis
      by (auto simp add: readValue_body_def)
  qed
next
  case (VVector t old)
  obtain oc1 vs js1 where r: "readArray rec1 t s js = (oc1, vs, js1)"
    by (cases "readArray rec1 t s js") auto
  with VVector assms(2,3) have ne: "oc1 \<noteq> OutOfFuel" by (auto simp: readValue_body_def)
  from readArray_mono [OF assms(1) r ne] r VVector assms(2) show ?thesis
    by (auto simp add: readValue_body_def)
next
  case (VMap t obj)
  obtain oc1 p js1 where r: "r_readObject rec1 (Some (MapClass t)) (MapClass t) None (Some obj) s js = (oc1, p, js1)"
    by (cases "r_readObject rec1 (Some (MapClass t)) (MapClass t) None (Some obj) s js") auto
  with VMap assms(2,3) have ne: "oc1 \<noteq> OutOfFuel" by (auto simp: readValue_body_def)
  from r_readObject_mono [OF assms(1) r ne] r VMap assms(2) show ?thesis
    by (auto simp add: readValue_body_def)
qed

lemma readObject_body_mono:
  assumes "rle rec1 rec2" and "readObject_body rec1 c pc cr obj s js = (oc, p, js')"
    and "oc \<noteq> OutOfFuel"
  shows "readObject_body rec2 c pc cr obj s js = (oc, p, js')"
  using assms
  by (auto simp: readObject_body_def split: if_splits option.splits dest: r_readObject_loop_mono)

lemma member_read_mono:
  assumes "rle rec1 rec2" and "member_read rec1 classes mb obj val js = (oc, js')"
    and "oc \<noteq> OutOfFuel"
  shows "member_read rec2 classes mb obj val js = (oc, js')"
proof (cases "\<exists>n var c T old. mb = InstanceMemberWithCreator n var c
                 \<and> get_field js obj (variable mb) = VPtr T old")
  case True
  then obtain n var c T old where
    mb: "mb = InstanceMemberWithCreator n var c" "get_field js obj var = VPtr T old"
    by auto
  let ?js1 = "set_field obj var (VPtr T None) js"
  show ?thesis
  proof (cases "val = ''null''")
    case True
    with mb assms show ?thesis by (simp add: member_read_def)
  next
    case False
    obtain oc1 p js2 where r: "readPointee rec1 classes T (Some c) val ?js1 = (oc1, p, js2)"
      by (cases "readPointee rec1 classes T (Some c) val ?js1") auto
    with mb False assms(2,3) have ne: "oc1 \<noteq> OutOfFuel"
      by (cases oc1) (auto simp: member_read_def)
    from readPointee_mono [OF assms(1) r ne] r mb False assms(2) show ?thesis
      by (simp add: member_read_def)
  qed
next
  case False
  have body: "\<And>rec. member_read rec classes mb obj val js =
      (case r_readValue rec (get_field js obj (variable mb)) val js of
             (oc, v, js') \<Rightarrow> (oc, set_field obj (variable mb) v js'))"
    using False
    by (cases mb; cases "get_field js obj (variable mb)") (auto simp: member_read_def)
  obtain oc1 v js1 where r: "r_readValue rec1 (get_field js obj (variable mb)) val js = (oc1, v, js1)"
    by (cases "r_readValue rec1 (get_field js obj (variable mb)) val js") auto
  with assms(2,3) have ne: "oc1 \<noteq> OutOfFuel" by (auto simp: body)
  from r_readValue_mono [OF assms(1) r ne] r assms(2) show ?thesis by (simp add: body)
qed

lemma search_superclasses_mono:
  assumes "rle rec1 rec2" and "search_superclasses rec1 sups obj nam val js = (oc, b, js')"
    and "oc \<noteq> OutOfFuel"
  shows "search_superclasses rec2 sups obj nam val js = (oc, b, js')"
  using assms(2)
proof (induction sups arbitrary: js)
  case Nil
  then show ?case by simp
next
  case (Cons it its)
  obtain oc1 b1 js1 where r: "r_readMember rec1 (super it) (upcast it obj) nam val js = (oc1, b1, js1)"
    by (cases "r_readMember rec1 (super it) (upcast it obj) nam val js") auto
  show ?case
  proof (cases "oc1 = Normal \<and> \<not> b1")
    case True
    with r Cons.prems have "search_superclasses rec1 its obj nam val js1 = (oc, b, js')" by simp
    from Cons.IH [OF this] r_readMember_mono [OF assms(1) r] True show ?thesis by simp
  next
    case False
    with r Cons.prems have eq: "oc1 = oc" "b1 = b" "js1 = js'"
      by (cases oc1; cases b1; simp)+
    with r_readMember_mono [OF assms(1) r] assms(3) False show ?thesis
      by (cases oc; cases b) auto
  qed
qed

lemma readMember_body_mono:
  assumes "rle rec1 rec2" and "readMember_body rec1 classes cl obj nam val js = (oc, b, js')"
    and "oc \<noteq> OutOfFuel"
  shows "readMember_body rec2 classes cl obj nam val js = (oc, b, js')"
proof (cases cl)
  case (ObjectClass cn sups cr ms pr)
  show ?thesis
  proof (cases "getMember ms nam")
    case None
    with ObjectClass assms(2) search_superclasses_mono [OF assms(1) _ assms(3)] show ?thesis
      by (simp add: readMember_body_def)
  next
    case (Some mb)
    obtain oc1 js1 where r: "member_read rec1 classes mb obj val js = (oc1, js1)"
      by (cases "member_read rec1 classes mb obj val js") auto
    with Some ObjectClass assms(2,3) have ne: "oc1 \<noteq> OutOfFuel"
      by (auto simp: readMember_body_def)
    from member_read_mono [OF assms(1) r ne] r Some ObjectClass assms(2) show ?thesis
      by (simp add: readMember_body_def)
  qed
next
  case (MapClass t)
  obtain e js1 where d: "default_val t js = (e, js1)" by (cases "default_val t js") auto
  obtain oc1 e' js2 where r: "r_readValue rec1 e val (map_put obj nam e js1) = (oc1, e', js2)"
    by (cases "r_readValue rec1 e val (map_put obj nam e js1)") auto
  with d MapClass assms(2,3) have ne: "oc1 \<noteq> OutOfFuel" by (auto simp: readMember_body_def)
  from r_readValue_mono [OF assms(1) r ne] r d MapClass assms(2) show ?thesis
    by (simp add: readMember_body_def)
qed

lemma readObject_member_mono:
  assumes "rle rec1 rec2" and "readObject_member rec1 cl obj nam val js = (oc, js')"
    and "oc \<noteq> OutOfFuel"
  shows "readObject_member rec2 cl obj nam val js = (oc, js')"
proof -
  let ?a = "case obj of Some a \<Rightarrow> a | None \<Rightarrow> 0"
  obtain oc1 b js1 where r: "r_readMember rec1 cl ?a nam val js = (oc1, b, js1)"
    by (cases "r_readMember rec1 cl ?a nam val js") auto
  with assms(2,3) have ne: "oc1 \<noteq> OutOfFuel"
    by (cases oc1) (auto simp: readObject_member_def)
  from r_readMember_mono [OF assms(1) r ne] r assms(2) show ?thesis
    by (simp add: readObject_member_def)
qed

lemma readObject_loop_body_mono:
  assumes "rle rec1 rec2"
    and "readObject_loop_body rec1 classes objclass pc cr obj js = (oc, p, js')"
    and "oc \<noteq> OutOfFuel"
  shows "readObject_loop_body rec2 classes objclass pc cr obj js = (oc, p, js')"
proof (cases "in_good js")
  case False
  with assms show ?thesis by (simp add: readObject_loop_body_def)
next
  case good: True
  obtain ocl nam val f1 f2 js1 where rl: "readLine True js = (ocl, nam, val, f1, f2, js1)"
    by (cases "readLine True js") auto
  show ?thesis
  proof (cases "ocl = Normal")
    case False
    with good rl assms(2) show ?thesis
      by (cases ocl) (auto simp add: readObject_loop_body_def)
  next
    case ocl: True
    show ?thesis
    proof (cases "(\<not> f1 \<or> (\<not> f2 \<and> nam \<noteq> ''}''))
        \<or> (tok0 nam = CHR ''@'' \<and> nam \<noteq> ''@class'' \<and> nam \<noteq> ''@id'')")
      case True
      have "readObject_loop_body rec2 classes objclass pc cr obj js =
          readObject_loop_body rec1 classes objclass pc cr obj js"
      proof (cases "\<not> f1 \<or> (\<not> f2 \<and> nam \<noteq> ''}'')")
        case True
        with good rl ocl show ?thesis by (simp add: readObject_loop_body_def)
      next
        case False
        with True good rl ocl show ?thesis by (auto simp add: readObject_loop_body_def)
      qed
      with assms(2) show ?thesis by simp
    next
      case checks: False
      obtain ocp clo obj' js2 where pin:
        "(case objclass of None \<Rightarrow> pin_class classes pc cr obj nam val js1
          | Some cl \<Rightarrow> (Normal, objclass, obj, js1)) = (ocp, clo, obj', js2)"
        by (cases "case objclass of None \<Rightarrow> pin_class classes pc cr obj nam val js1
          | Some cl \<Rightarrow> (Normal, objclass, obj, js1)") auto
      from checks have c1: "(\<not> f1 \<or> (\<not> f2 \<and> nam \<noteq> ''}'')) = False"
        and c2: "(tok0 nam = CHR ''@'' \<and> nam \<noteq> ''@class'' \<and> nam \<noteq> ''@id'') = False"
        by auto
      have body0: "\<And>rec. readObject_loop_body rec classes objclass pc cr obj js =
          (case (ocp, clo, obj', js2) of
             (Normal, Some cl, obj', js2) \<Rightarrow>
                     (if objclass = None \<and> nam = ''@class'' then
                        r_readObject_loop rec (Some cl) pc cr obj' js2
                      else if nam = ''}'' then (Normal, obj', doPostRead cl obj' js2)
                      else if nam = ''@id'' then
                        (case stoul val of
                           Inl e \<Rightarrow> (Thrown e, obj', js2)
                         | Inr i \<Rightarrow>
                             r_readObject_loop rec (Some cl) pc cr obj'
                               (js2\<lparr>id_to_object := (id_to_object js2)(i := obj')\<rparr>))
                      else
                        (case readObject_member rec cl obj' nam val js2 of
                           (Normal, js3) \<Rightarrow> r_readObject_loop rec (Some cl) pc cr obj' js3
                         | (oc, js3) \<Rightarrow> (oc, obj', js3)))
                 | (oc, cl, obj', js2) \<Rightarrow> (oc, obj', js2))"
        unfolding readObject_loop_body_def pin [symmetric]
        by (simp only: good rl [unfolded ocl] c1 c2 if_False if_True not_True_eq_False
            prod.case outcome.case Let_def)
      show ?thesis
      proof (cases "ocp = Normal \<and> clo \<noteq> None")
        case False
        with assms(2) show ?thesis
          by (cases ocp; cases clo) (auto simp add: body0)
      next
        case True
        then obtain cl where cl: "clo = Some cl" "ocp = Normal" by auto
        define B where "B rec =
                     (if objclass = None \<and> nam = ''@class'' then
                        r_readObject_loop rec (Some cl) pc cr obj' js2
                      else if nam = ''}'' then (Normal, obj', doPostRead cl obj' js2)
                      else if nam = ''@id'' then
                        (case stoul val of
                           Inl e \<Rightarrow> (Thrown e, obj', js2)
                         | Inr i \<Rightarrow>
                             r_readObject_loop rec (Some cl) pc cr obj'
                               (js2\<lparr>id_to_object := (id_to_object js2)(i := obj')\<rparr>))
                      else
                        (case readObject_member rec cl obj' nam val js2 of
                           (Normal, js3) \<Rightarrow> r_readObject_loop rec (Some cl) pc cr obj' js3
                         | (oc, js3) \<Rightarrow> (oc, obj', js3)))" for rec
        have body: "\<And>rec. readObject_loop_body rec classes objclass pc cr obj js = B rec"
          by (simp add: body0 cl B_def)
        from assms(2) have a2: "B rec1 = (oc, p, js')" by (simp only: body)
        have "B rec2 = (oc, p, js')"
        proof (cases "objclass = None \<and> nam = ''@class''")
          case True
          with a2 r_readObject_loop_mono [OF assms(1) _ assms(3)] show ?thesis
            by (simp add: B_def)
        next
          case n1: False
          show ?thesis
          proof (cases "nam = ''}''")
            case True
            with n1 a2 show ?thesis by (auto simp add: B_def)
          next
            case n2: False
            show ?thesis
            proof (cases "nam = ''@id''")
              case True
              with n1 n2 a2 r_readObject_loop_mono [OF assms(1) _ assms(3)] show ?thesis
                by (cases "stoul val") (auto simp add: B_def)
            next
              case n3: False
              have B3: "\<And>rec. B rec =
                  (case readObject_member rec cl obj' nam val js2 of
                     (Normal, js3) \<Rightarrow> r_readObject_loop rec (Some cl) pc cr obj' js3
                   | (oc, js3) \<Rightarrow> (oc, obj', js3))"
                unfolding B_def using n1 n2 n3 by (simp only: if_False)
              obtain oc1 js3 where m: "readObject_member rec1 cl obj' nam val js2 = (oc1, js3)"
                by (cases "readObject_member rec1 cl obj' nam val js2") auto
              with a2 assms(3) have ne: "oc1 \<noteq> OutOfFuel"
                by (cases oc1) (auto simp: B3)
              from readObject_member_mono [OF assms(1) m ne]
              have m2: "readObject_member rec2 cl obj' nam val js2 = (oc1, js3)" .
              show ?thesis
              proof (cases "oc1 = Normal")
                case True
                with m a2
                have "r_readObject_loop rec1 (Some cl) pc cr obj' js3 = (oc, p, js')"
                  by (simp add: B3)
                from r_readObject_loop_mono [OF assms(1) this assms(3)] m2 True
                show ?thesis by (simp add: B3)
              next
                case False
                with m m2 a2 show ?thesis
                  by (cases oc1) (auto simp: B3)
              qed
            qed
          qed
        qed
        then show ?thesis by (simp only: body)
      qed
    qed
  qed
qed

lemma reader_Suc:
  "reader (Suc n) classes (ReadValue var s) js =
     (case readValue_body (reader n classes) classes var s js of (oc, v, js') \<Rightarrow> (oc, AVal v, js'))"
  "reader (Suc n) classes (ReadObject objclass pc cr obj s) js =
     (case readObject_body (reader n classes) objclass pc cr obj s js of
        (oc, p, js') \<Rightarrow> (oc, APtr p, js'))"
  "reader (Suc n) classes (ReadObject_loop objclass pc cr obj) js =
     (case readObject_loop_body (reader n classes) classes objclass pc cr obj js of
        (oc, p, js') \<Rightarrow> (oc, APtr p, js'))"
  "reader (Suc n) classes (ReadMember cl a nam val) js =
     (case readMember_body (reader n classes) classes cl a nam val js of
        (oc, b, js') \<Rightarrow> (oc, ABool b, js'))"
  "reader (Suc n) classes (ReadArray_loop t cont) js =
     (case readArray_loop_body (reader n classes) t cont js of
        (oc, vs, js') \<Rightarrow> (oc, AList vs, js'))"
  by (simp_all add: reader.simps)

lemma reader_Suc_mono: "rle (reader n classes) (reader (Suc n) classes)"
proof (induction n)
  case 0
  show ?case by (simp add: rle_def reader.simps)
next
  case (Suc n)
  show ?case
    unfolding rle_def
  proof (intro allI impI, elim conjE)
    fix r js oc a js'
    assume a: "reader (Suc n) classes r js = (oc, a, js')" and ne: "oc \<noteq> OutOfFuel"
    show "reader (Suc (Suc n)) classes r js = (oc, a, js')"
    proof (cases r)
      case (ReadValue var s)
      with a obtain v where "readValue_body (reader n classes) classes var s js = (oc, v, js')"
        and "a = AVal v"
        by (auto simp only: reader_Suc split: prod.splits)
      with readValue_body_mono [OF Suc _ ne] ReadValue show ?thesis
        by (simp only: reader_Suc) simp
    next
      case (ReadObject objclass pc cr obj s)
      with a obtain p where "readObject_body (reader n classes) objclass pc cr obj s js = (oc, p, js')"
        and "a = APtr p"
        by (auto simp only: reader_Suc split: prod.splits)
      with readObject_body_mono [OF Suc _ ne] ReadObject show ?thesis
        by (simp only: reader_Suc) simp
    next
      case (ReadObject_loop objclass pc cr obj)
      with a obtain p where
        "readObject_loop_body (reader n classes) classes objclass pc cr obj js = (oc, p, js')"
        and "a = APtr p"
        by (auto simp only: reader_Suc split: prod.splits)
      with readObject_loop_body_mono [OF Suc _ ne] ReadObject_loop show ?thesis
        by (simp only: reader_Suc) simp
    next
      case (ReadMember cl obj nam val)
      with a obtain b where
        "readMember_body (reader n classes) classes cl obj nam val js = (oc, b, js')"
        and "a = ABool b"
        by (auto simp only: reader_Suc split: prod.splits)
      with readMember_body_mono [OF Suc _ ne] ReadMember show ?thesis
        by (simp only: reader_Suc) simp
    next
      case (ReadArray_loop t cont)
      with a obtain vs where
        "readArray_loop_body (reader n classes) t cont js = (oc, vs, js')"
        and "a = AList vs"
        by (auto simp only: reader_Suc split: prod.splits)
      with readArray_loop_body_mono [OF Suc _ ne] ReadArray_loop show ?thesis
        by (simp only: reader_Suc) simp
    qed
  qed
qed

lemma reader_mono:
  assumes "reader n classes r js = (oc, a, js')" and "oc \<noteq> OutOfFuel" and "n \<le> m"
  shows "reader m classes r js = (oc, a, js')"
  using assms(3,1)
proof (induction m)
  case 0
  then show ?case by simp
next
  case (Suc m)
  show ?case
  proof (cases "n = Suc m")
    case True
    with Suc show ?thesis by simp
  next
    case False
    with Suc have "reader m classes r js = (oc, a, js')" by simp
    with reader_Suc_mono [of m classes] assms(2) show ?thesis by (auto simp: rle_def)
  qed
qed

subsection \<open>The order of the superclasses\<close>

lemma for_each_append:
  "for_each f (xs @ ys) js =
     (case for_each f xs js of (Normal, js') \<Rightarrow> for_each f ys js' | r \<Rightarrow> r)"
  by (induction xs arbitrary: js) (auto split: prod.splits outcome.splits)

lemma for_each_map: "for_each f (map g xs) js = for_each (\<lambda>x. f (g x)) xs js"
  by (induction xs arbitrary: js) (auto split: prod.splits outcome.splits)

lemma write_member_mono:
  assumes "write_member n classes x js = (oc, js')" and "oc \<noteq> OutOfFuel" and "n \<le> m"
  shows "write_member m classes x js = (oc, js')"
  using assms writer_mono unfolding write_member_def writeValue_def by blast

lemma write_members_mono:
  assumes "for_each (write_member n classes) xs js = (oc, js')" and "oc \<noteq> OutOfFuel" and "n \<le> m"
  shows "for_each (write_member m classes) xs js = (oc, js')"
  by (rule for_each_mono [OF _ assms(1,2)]) (erule (1) write_member_mono, rule assms(3))

lemma writeMembers_base_first:
  assumes "is_object_class cl" and "writer n classes (WriteMembers cl obj) js = (oc, js')"
    and "oc \<noteq> OutOfFuel"
  shows "for_each (write_member n classes) (members_base_first cl obj) js = (oc, js')"
  using assms
proof (induction n arbitrary: cl obj js oc js')
  case 0
  then show ?case by (simp add: writer.simps)
next
  case (Suc k)
  from Suc.prems(1) obtain cn sups cr ms pr where
    cl: "cl = ObjectClass cn sups cr ms pr" and ok: "are_object_classes sups"
    by (cases cl) auto
  let ?s = "\<lambda>it js. writer k classes (WriteMembers (super it) (upcast it obj)) js"
  let ?m = "\<lambda>it js. writer k classes (WriteValue (get_field js obj (variable it)))
                     (member_label (name it) (comma js))"
  have bases: "for_each ?s sups js = (oc1, js1) \<Longrightarrow> oc1 \<noteq> OutOfFuel \<Longrightarrow>
      for_each (write_member (Suc k) classes) (members_of_bases sups obj) js = (oc1, js1)"
    for oc1 js1 js
    using ok
  proof (induction sups arbitrary: js)
    case Nil
    then show ?case by simp
  next
    case (Cons it its)
    obtain c up where it: "it = Superclass c up" by (cases it) auto
    with Cons.prems have c: "is_object_class c" and its: "are_object_classes its" by simp_all
    obtain oc2 js2 where w: "writer k classes (WriteMembers c (up obj)) js = (oc2, js2)"
      by (cases "writer k classes (WriteMembers c (up obj)) js") auto
    show ?case
    proof (cases "oc2 = OutOfFuel")
      case True
      with w it Cons.prems show ?thesis by simp
    next
      case False
      from Suc.IH [OF c w False]
      have "for_each (write_member k classes) (members_base_first c (up obj)) js = (oc2, js2)" .
      from write_members_mono [OF this False, of "Suc k"]
      have b: "for_each (write_member (Suc k) classes) (members_base_first c (up obj)) js = (oc2, js2)"
        by simp
      show ?thesis
      proof (cases "oc2 = Normal")
        case True
        with w it Cons.prems have "for_each ?s its js2 = (oc1, js1)" by simp
        from Cons.IH [OF this Cons.prems(2) its] b True it show ?thesis
          by (simp add: for_each_append)
      next
        case False
        with w it Cons.prems b \<open>oc2 \<noteq> OutOfFuel\<close> show ?thesis
          by (cases oc2) (auto simp: for_each_append)
      qed
    qed
  qed
  have own: "for_each ?m ms js1 = (oc1, js1') \<Longrightarrow> oc1 \<noteq> OutOfFuel \<Longrightarrow>
      for_each (write_member (Suc k) classes) (map (\<lambda>m. (m, obj)) ms) js1 = (oc1, js1')"
    for oc1 js1 js1'
  proof -
    assume a: "for_each ?m ms js1 = (oc1, js1')" and ne: "oc1 \<noteq> OutOfFuel"
    have "for_each (\<lambda>m. write_member (Suc k) classes (m, obj)) ms js1 = (oc1, js1')"
      by (rule for_each_mono [OF _ a ne])
         (simp add: write_member_def writeValue_def, erule (1) writer_mono, simp)
    then show ?thesis by (simp add: for_each_map)
  qed
  obtain oc1 js1 where s1: "for_each ?s sups js = (oc1, js1)"
    by (cases "for_each ?s sups js") auto
  from Suc.prems(2) cl have body: "writeMembers_body (writer k classes) cl obj js = (oc, js')"
    by (simp only: writer_Suc)
  show ?case
  proof (cases "oc1 = Normal")
    case True
    with s1 body cl have "for_each ?m ms js1 = (oc, js')" by (simp add: writeMembers_body_def)
    from own [OF this Suc.prems(3)] bases [OF s1] True cl show ?thesis
      by (simp add: for_each_append)
  next
    case False
    with s1 body cl have "oc1 = oc" "js1 = js'"
      by (cases oc1; simp add: writeMembers_body_def)+
    with bases [OF s1] False Suc.prems(3) cl show ?thesis
      by (cases oc) (auto simp: for_each_append)
  qed
qed

lemma rle_reader: "n \<le> m \<Longrightarrow> rle (reader n classes) (reader m classes)"
  unfolding rle_def using reader_mono by blast

lemma readMember_lookup:
  assumes "is_object_class cl"
    and "r_readMember (reader n classes) cl obj nam val js = (oc, b, js')"
    and "oc \<noteq> OutOfFuel"
  shows "found_as n classes (lookup_member cl obj nam) val js (oc, b, js')"
  using assms
proof (induction n arbitrary: cl obj js oc b js')
  case 0
  then show ?case by (simp add: r_zero)
next
  case (Suc k)
  from Suc.prems(1) obtain cn sups cr ms pr where
    cl: "cl = ObjectClass cn sups cr ms pr" and ok: "are_object_classes sups"
    by (cases cl) auto
  from Suc.prems(2)
  have body: "readMember_body (reader k classes) classes cl obj nam val js = (oc, b, js')"
    by (simp only: r_readMember_Suc)
  have up: "rle (reader k classes) (reader (Suc k) classes)" by (rule reader_Suc_mono)
  show ?case
  proof (cases "getMember ms nam")
    case (Some m)
    obtain oc1 js1 where r: "member_read (reader k classes) classes m obj val js = (oc1, js1)"
      by (cases "member_read (reader k classes) classes m obj val js") auto
    with body cl Some have eq: "oc1 = oc" "b" "js1 = js'"
      by (simp_all add: readMember_body_def)
    from member_read_mono [OF up r] eq Suc.prems(3) cl Some show ?thesis
      by (simp add: found_as_def)
  next
    case None
    have bases: "search_superclasses (reader k classes) sups obj nam val js = (oc1, b1, js1) \<Longrightarrow>
        oc1 \<noteq> OutOfFuel \<Longrightarrow>
        found_as (Suc k) classes (lookup_in_bases sups obj nam) val js (oc1, b1, js1)"
      for oc1 b1 js1
      using ok
    proof (induction sups)
      case Nil
      then show ?case by (simp add: found_as_def)
    next
      case (Cons it its)
      obtain c u where it: "it = Superclass c u" by (cases it) auto
      with Cons.prems have c: "is_object_class c" and its: "are_object_classes its" by simp_all
      obtain oc2 b2 js2 where
        r: "r_readMember (reader k classes) c (u obj) nam val js = (oc2, b2, js2)"
        by (cases "r_readMember (reader k classes) c (u obj) nam val js") auto
      show ?case
      proof (cases "oc2 = Normal \<and> \<not> b2")
        case True
        with r have ne: "oc2 \<noteq> OutOfFuel" by simp
        from Suc.IH [OF c r ne] True
        have l: "lookup_member c (u obj) nam = None" and js2: "js2 = js"
          by (auto simp: found_as_def split: option.splits)
        from r True it Cons.prems(1) js2
        have "search_superclasses (reader k classes) its obj nam val js = (oc1, b1, js1)"
          by simp
        from Cons.IH [OF this Cons.prems(2) its] l it show ?thesis by simp
      next
        case False
        with r it Cons.prems(1) have eq: "oc2 = oc1" "b2 = b1" "js2 = js1"
          by (cases oc2; cases b2; simp)+
        with Cons.prems(2) have ne: "oc2 \<noteq> OutOfFuel" by simp
        from Suc.IH [OF c r ne] False obtain m a where
          l: "lookup_member c (u obj) nam = Some (m, a)" and b2: "b2"
          and mr: "member_read (reader k classes) classes m a val js = (oc2, js2)"
          by (cases "lookup_member c (u obj) nam") (auto simp: found_as_def)
        from member_read_mono [OF up mr ne] l b2 eq it show ?thesis
          by (simp add: found_as_def)
      qed
    qed
    from body cl None
    have "search_superclasses (reader k classes) sups obj nam val js = (oc, b, js')"
      by (simp add: readMember_body_def)
    from bases [OF this Suc.prems(3)] cl None show ?thesis by simp
  qed
qed

lemma write_member_pair:
  "write_member n classes (m, obj) =
     (\<lambda>js. writer n classes (WriteValue (get_field js obj (variable m)))
        (member_label (name m) (comma js)))"
  by (rule ext) (simp add: write_member_def writeValue_def)

lemma writeMembers_enough:
  fixes cl :: MetaClass and sups :: "Superclass list"
  shows "is_object_class cl \<Longrightarrow>
      for_each (write_member k classes) (members_base_first cl obj) js = (oc, js') \<Longrightarrow>
      oc \<noteq> OutOfFuel \<Longrightarrow> height cl + k \<le> n \<Longrightarrow>
      writer n classes (WriteMembers cl obj) js = (oc, js')"
    and "are_object_classes sups \<Longrightarrow>
      for_each (write_member k classes) (members_of_bases sups obj) js = (oc, js') \<Longrightarrow>
      oc \<noteq> OutOfFuel \<Longrightarrow> heights sups + k \<le> n \<Longrightarrow>
      for_each (\<lambda>it js. writer n classes (WriteMembers (super it) (upcast it obj)) js) sups js
        = (oc, js')"
proof (induction cl and sups arbitrary: n obj js oc js' and n obj js oc js'
    rule: is_object_class_are_object_classes.induct)
  case (1 cn sups cr ms pr)
  from "1.prems"(4) obtain n' where n: "n = Suc n'" and n': "heights sups + k \<le> n'"
    by (cases n) auto
  obtain oc1 js1 where
    b: "for_each (write_member k classes) (members_of_bases sups obj) js = (oc1, js1)"
    by (cases "for_each (write_member k classes) (members_of_bases sups obj) js") auto
  with "1.prems"(2,3) have ne: "oc1 \<noteq> OutOfFuel"
    by (cases oc1) (auto simp: for_each_append)
  from "1.prems"(1) have "are_object_classes sups" by simp
  from "1.IH" [OF this b ne n']
  have s: "for_each (\<lambda>it js. writer n' classes (WriteMembers (super it) (upcast it obj)) js) sups js
      = (oc1, js1)" .
  show ?case
  proof (cases "oc1 = Normal")
    case True
    with b "1.prems"(2)
    have "for_each (\<lambda>m. write_member k classes (m, obj)) ms js1 = (oc, js')"
      by (simp add: for_each_append for_each_map)
    have "for_each (\<lambda>m. write_member n' classes (m, obj)) ms js1 = (oc, js')"
      by (rule for_each_mono [OF _ \<open>for_each (\<lambda>m. write_member k classes (m, obj)) ms js1 = (oc, js')\<close>
            "1.prems"(3)])
         (erule (1) write_member_mono, use n' in simp)
    with s True n show ?thesis
      by (simp add: writer_Suc writeMembers_body_def write_member_pair)
  next
    case False
    with b "1.prems"(2) ne have "oc1 = oc" "js1 = js'"
      by (cases oc1; simp add: for_each_append)+
    with s False ne n show ?thesis
      by (cases oc) (auto simp: writer_Suc writeMembers_body_def)
  qed
next
  case (2 t)
  then show ?case by simp
next
  case 3
  then show ?case by simp
next
  case (4 cl up its)
  obtain oc1 js1 where
    b: "for_each (write_member k classes) (members_base_first cl (up obj)) js = (oc1, js1)"
    by (cases "for_each (write_member k classes) (members_base_first cl (up obj)) js") auto
  with "4.prems"(2,3) have ne: "oc1 \<noteq> OutOfFuel"
    by (cases oc1) (auto simp: for_each_append)
  from "4.prems"(1) have c: "is_object_class cl" and its: "are_object_classes its" by simp_all
  from "4.prems"(4) have h1: "height cl + k \<le> n" and h2: "heights its + k \<le> n" by simp_all
  from "4.IH"(1) [OF c b ne h1]
  have w: "writer n classes (WriteMembers cl (up obj)) js = (oc1, js1)" .
  show ?case
  proof (cases "oc1 = Normal")
    case True
    with b "4.prems"(2)
    have "for_each (write_member k classes) (members_of_bases its obj) js1 = (oc, js')"
      by (simp add: for_each_append)
    from "4.IH"(2) [OF its this "4.prems"(3) h2] w True show ?thesis by simp
  next
    case False
    with b "4.prems"(2) ne have "oc1 = oc" "js1 = js'"
      by (cases oc1; simp add: for_each_append)+
    with w False ne show ?thesis by (cases oc) auto
  qed
qed

lemma readMember_enough:
  fixes cl :: MetaClass and sups :: "Superclass list"
  shows "is_object_class cl \<Longrightarrow> height cl + k \<le> n \<Longrightarrow>
      (case lookup_member cl obj nam of
         None \<Rightarrow> r_readMember (reader n classes) cl obj nam val js = (Normal, False, js)
       | Some ma \<Rightarrow>
           (\<forall>oc js'. member_read (reader k classes) classes (fst ma) (snd ma) val js = (oc, js')
              \<and> oc \<noteq> OutOfFuel \<longrightarrow>
              r_readMember (reader n classes) cl obj nam val js = (oc, True, js')))"
    and "are_object_classes sups \<Longrightarrow> heights sups + k \<le> n \<Longrightarrow>
      (case lookup_in_bases sups obj nam of
         None \<Rightarrow> search_superclasses (reader n classes) sups obj nam val js = (Normal, False, js)
       | Some ma \<Rightarrow>
           (\<forall>oc js'. member_read (reader k classes) classes (fst ma) (snd ma) val js = (oc, js')
              \<and> oc \<noteq> OutOfFuel \<longrightarrow>
              search_superclasses (reader n classes) sups obj nam val js = (oc, True, js')))"
proof (induction cl and sups arbitrary: n obj and n obj
    rule: is_object_class_are_object_classes.induct)
  case (1 cn sups cr ms pr)
  from "1.prems"(2) obtain n' where n: "n = Suc n'" and n': "heights sups + k \<le> n'"
    by (cases n) auto
  from "1.prems"(1) have ok: "are_object_classes sups" by simp
  show ?case
  proof (cases "getMember ms nam")
    case None
    with "1.IH" [OF ok n', of obj] n show ?thesis
      by (cases "lookup_in_bases sups obj nam")
         (simp_all add: r_readMember_Suc readMember_body_def)
  next
    case (Some m)
    have "member_read (reader n' classes) classes m obj val js = (oc, js')"
      if "member_read (reader k classes) classes m obj val js = (oc, js')" "oc \<noteq> OutOfFuel"
      for oc js'
      by (rule member_read_mono [OF rle_reader that]) (use n' in simp)
    with Some n show ?thesis
      by (simp add: r_readMember_Suc readMember_body_def)
  qed
next
  case (2 t)
  then show ?case by simp
next
  case 3
  then show ?case by simp
next
  case (4 cl up its)
  from "4.prems"(1) have c: "is_object_class cl" and its: "are_object_classes its" by simp_all
  from "4.prems"(2) have h1: "height cl + k \<le> n" and h2: "heights its + k \<le> n" by simp_all
  show ?case
  proof (cases "lookup_member cl (up obj) nam")
    case None
    with "4.IH"(1) [OF c h1, of "up obj"] "4.IH"(2) [OF its h2, of obj] show ?thesis
      by (cases "lookup_in_bases its obj nam") simp_all
  next
    case (Some ma)
    have "search_superclasses (reader n classes) (Superclass cl up # its) obj nam val js
        = (oc, True, js')"
      if m: "member_read (reader k classes) classes (fst ma) (snd ma) val js = (oc, js')"
        and ne: "oc \<noteq> OutOfFuel" for oc js'
    proof -
      from "4.IH"(1) [OF c h1, of "up obj"] Some m ne
      have "r_readMember (reader n classes) cl (up obj) nam val js = (oc, True, js')" by simp
      then show ?thesis by (cases oc) simp_all
    qed
    with Some show ?thesis by (simp del: search_superclasses.simps)
  qed
qed

text \<open>
  C5.  For a class made by \<^verbatim>\<open>defclass\<close>, the order of the \<^verbatim>\<open>extends\<close> declarations governs
  writing and reading.  \<^verbatim>\<open>writeMembers\<close> writes the members in the order of
  \<open>members_base_first\<close>: those of the superclasses, recursively and in declared order,
  before those of the class; every completed run is the run over that list, and a run over
  that list is reached with a budget larger by the depth of the hierarchy.  \<^verbatim>\<open>readMember\<close>
  reads into the member given by \<open>lookup_member\<close>: the member of the class itself if it has
  one of that name, else the member found in the first superclass, in declared order and
  after the upcast, that has one; if there is none, nothing is read and the result is
  \<^verbatim>\<open>false\<close>.
\<close>

theorem members_in_declared_order:
  assumes "is_object_class cl"
  shows "(writeMembers n classes cl obj js = (ocw, jsw) \<and> ocw \<noteq> OutOfFuel \<longrightarrow>
            for_each (write_member n classes) (members_base_first cl obj) js = (ocw, jsw))
    \<and> (for_each (write_member k classes) (members_base_first cl obj) js = (ocw', jsw')
          \<and> ocw' \<noteq> OutOfFuel \<longrightarrow>
            writeMembers (height cl + k) classes cl obj js = (ocw', jsw'))
    \<and> (readMember n classes cl obj nam val js = (ocr, b, jsr) \<and> ocr \<noteq> OutOfFuel \<longrightarrow>
            found_as n classes (lookup_member cl obj nam) val js (ocr, b, jsr))
    \<and> (lookup_member cl obj nam = None \<longrightarrow>
            readMember (height cl + k) classes cl obj nam val js = (Normal, False, js))
    \<and> (lookup_member cl obj nam = Some (m, a)
          \<and> member_read (reader k classes) classes m a val js = (ocr', jsr')
          \<and> ocr' \<noteq> OutOfFuel \<longrightarrow>
            readMember (height cl + k) classes cl obj nam val js = (ocr', True, jsr'))"
proof (intro conjI impI; (elim conjE)?)
  assume "writeMembers n classes cl obj js = (ocw, jsw)" and "ocw \<noteq> OutOfFuel"
  with assms show "for_each (write_member n classes) (members_base_first cl obj) js = (ocw, jsw)"
    unfolding writeMembers_def by (rule writeMembers_base_first)
next
  assume "for_each (write_member k classes) (members_base_first cl obj) js = (ocw', jsw')"
    and "ocw' \<noteq> OutOfFuel"
  with assms show "writeMembers (height cl + k) classes cl obj js = (ocw', jsw')"
    unfolding writeMembers_def by (rule writeMembers_enough(1)) simp
next
  assume "readMember n classes cl obj nam val js = (ocr, b, jsr)" and "ocr \<noteq> OutOfFuel"
  with assms show "found_as n classes (lookup_member cl obj nam) val js (ocr, b, jsr)"
    unfolding readMember_def by (rule readMember_lookup)
next
  assume "lookup_member cl obj nam = None"
  with readMember_enough(1) [OF assms le_refl, where k = k and obj = obj and nam = nam
      and classes = classes and val = val and js = js]
  show "readMember (height cl + k) classes cl obj nam val js = (Normal, False, js)"
    by (simp add: readMember_def)
next
  assume "lookup_member cl obj nam = Some (m, a)"
    and "member_read (reader k classes) classes m a val js = (ocr', jsr')"
    and "ocr' \<noteq> OutOfFuel"
  with readMember_enough(1) [OF assms le_refl, where k = k and obj = obj and nam = nam
      and classes = classes and val = val and js = js]
  show "readMember (height cl + k) classes cl obj nam val js = (ocr', True, jsr')"
    by (simp add: readMember_def)
qed

theorem members_in_declared_order_witness:
  "is_object_class D_class
   \<and> members_base_first D_class 1 =
       [(InstanceMember ''x'' ''ax'', 1), (InstanceMember ''y'' ''ay'', 1),
        (InstanceMember ''y'' ''by'', 2), (InstanceMember ''z'' ''bz'', 2),
        (InstanceMember ''z'' ''dz'', 1)]
   \<and> fst (writeMembers 3 D_classes D_class 1 (JsonSerial_ctor D_store 3)) = Normal
   \<and> for_each (write_member 3 D_classes) (members_base_first D_class 1)
         (JsonSerial_ctor D_store 3)
       = writeMembers 3 D_classes D_class 1 (JsonSerial_ctor D_store 3)
   \<and> lookup_member D_class 1 ''z'' = Some (InstanceMember ''z'' ''dz'', 1)
   \<and> lookup_member D_class 1 ''y'' = Some (InstanceMember ''y'' ''ay'', 1)
   \<and> fst (member_read (reader 1 D_classes) D_classes (InstanceMember ''y'' ''ay'') 1 ''v''
         (JsonSerial_ctor D_store 3)) = Normal
   \<and> readMember 3 D_classes D_class 1 ''y'' ''v'' (JsonSerial_ctor D_store 3)
       = (Normal, True,
          snd (member_read (reader 1 D_classes) D_classes (InstanceMember ''y'' ''ay'') 1 ''v''
            (JsonSerial_ctor D_store 3)))
   \<and> found_as 3 D_classes (Some (InstanceMember ''y'' ''ay'', 1)) ''v''
        (JsonSerial_ctor D_store 3)
        (readMember 3 D_classes D_class 1 ''y'' ''v'' (JsonSerial_ctor D_store 3))
   \<and> lookup_member D_class 1 ''w'' = None
   \<and> readMember 3 D_classes D_class 1 ''w'' ''v'' (JsonSerial_ctor D_store 3)
       = (Normal, False, JsonSerial_ctor D_store 3)"
proof -
  let ?js = "JsonSerial_ctor D_store 3"
  let ?w = "writeMembers 3 D_classes D_class 1 ?js"
  let ?m = "member_read (reader 1 D_classes) D_classes (InstanceMember ''y'' ''ay'') 1 ''v'' ?js"
  let ?f = "for_each (write_member 1 D_classes) (members_base_first D_class 1) ?js"
  have cl: "is_object_class D_class" by (simp add: D_class_def A_class_def B_class_def)
  have h: "height D_class + 1 = 3" by (simp add: D_class_def A_class_def B_class_def)
  have ms: "members_base_first D_class 1 =
       [(InstanceMember ''x'' ''ax'', 1), (InstanceMember ''y'' ''ay'', 1),
        (InstanceMember ''y'' ''by'', 2), (InstanceMember ''z'' ''bz'', 2),
        (InstanceMember ''z'' ''dz'', 1)]"
    by (simp add: D_class_def A_class_def B_class_def)
  have lz: "lookup_member D_class 1 ''z'' = Some (InstanceMember ''z'' ''dz'', 1)"
    and ly: "lookup_member D_class 1 ''y'' = Some (InstanceMember ''y'' ''ay'', 1)"
    and lw: "lookup_member D_class 1 ''w'' = None"
    by (simp_all add: D_class_def A_class_def B_class_def getMember_def)
  have f: "fst ?f = Normal"
    by (simp add: D_class_def A_class_def B_class_def write_member_def D_store_def
          JsonSerial_ctor_def writer_defs char_defs eval_nat_numeral)
  have m: "fst ?m = Normal"
    by (simp add: D_store_def JsonSerial_ctor_def reader_defs eval_nat_numeral)
  note y = members_in_declared_order [OF cl, where classes = D_classes and obj = 1
      and js = ?js and n = 3 and k = 1 and nam = "''y''" and val = "''v''"
      and ocw' = "fst ?f" and jsw' = "snd ?f" and ocw = "fst ?w" and jsw = "snd ?w"
      and m = "InstanceMember ''y'' ''ay''" and a = 1 and ocr' = "fst ?m" and jsr' = "snd ?m"
      and ocr = Normal and b = True and jsr = "snd ?m", unfolded h]
  note w = members_in_declared_order [OF cl, where classes = D_classes and obj = 1
      and js = ?js and k = 1 and nam = "''w''" and val = "''v''", unfolded h]
  from y f have 1: "?w = ?f" by simp
  with f y have 2: "fst ?w = Normal" "for_each (write_member 3 D_classes)
      (members_base_first D_class 1) ?js = ?w" by simp_all
  from y ly m have 3: "readMember 3 D_classes D_class 1 ''y'' ''v'' ?js = (Normal, True, snd ?m)"
    by simp
  from y 3 have "found_as 3 D_classes (lookup_member D_class 1 ''y'') ''v'' ?js
      (Normal, True, snd ?m)"
    by simp
  then have 4: "found_as 3 D_classes (Some (InstanceMember ''y'' ''ay'', 1)) ''v'' ?js
      (readMember 3 D_classes D_class 1 ''y'' ''v'' ?js)"
    by (simp only: ly 3)
  from w lw have 5: "readMember 3 D_classes D_class 1 ''w'' ''v'' ?js = (Normal, False, ?js)"
    by simp
  from cl ms 2 lz ly m 3 4 lw 5 show ?thesis by (intro conjI)
qed

subsection \<open>Writing and reading back\<close>

text \<open>
  An object of class \<^verbatim>\<open>P\<close> with the members \<^verbatim>\<open>"home"\<close> and \<^verbatim>\<open>"212"\<close> is written, the output is
  read through a null pointer, and the object that the reader made is written again: the
  reader makes an equal object at the next free address and the second output is the
  first one.
\<close>

lemma write_plain:
  "JsonSerial_write 6 P_classes (VPtr ''P'' (Some 1)) [] 1
      (JsonSerial_ctor [1 \<mapsto> P_object ''home'' ''212''] 2)
   = (Normal, True,
      (reset 1 [] [] (JsonSerial_ctor [1 \<mapsto> P_object ''home'' ''212''] 2))
        \<lparr>ostream := ''{'' @ [nl] @ ''  '' @ quoted ''type'' @ '': '' @ quoted ''home'' @ '',''
           @ [nl] @ ''  '' @ quoted ''number'' @ '': '' @ quoted ''212'' @ [nl] @ ''}'' @ [nl, nl],
         needcomma := True\<rparr>)"
  by (simp add: JsonSerial_write_def reset_def writer_defs scenario_defs char_defs
        eval_nat_numeral config_defs)

lemma roundtrip_plain_strings:
  "(case JsonSerial_write 6 P_classes (VPtr ''P'' (Some 1)) [] 1
          (JsonSerial_ctor [1 \<mapsto> P_object ''home'' ''212''] 2) of
      (oc, ok, js) \<Rightarrow>
        (oc, ok,
         case JsonSerial_read 9 P_classes (VPtr ''P'' None) (ostream js) 1 js of
           (oc', ok', v, js') \<Rightarrow>
             (oc', ok', v, store js' 2,
              case JsonSerial_write 6 P_classes v [] 1 js' of
                (oc'', ok'', js'') \<Rightarrow> (oc'', ok'', ostream js'' = ostream js))))
   = (Normal, True, Normal, True, VPtr ''P'' (Some 2), Some (P_object ''home'' ''212''),
      Normal, True, True)"
  unfolding write_plain prod.case
  by (simp add: JsonSerial_read_def JsonSerial_write_def writer_defs reset_def reader_defs
        readLine_loop.simps tokenizer_defs char_defs scenario_defs eval_nat_numeral Let_def
        config_defs)

text \<open>
  The same object with the one-character string \<^verbatim>\<open>0x01\<close> as its member \<^verbatim>\<open>type\<close>.
  \<^verbatim>\<open>writeString\<close> escapes the quote, the backslash and the characters \<^verbatim>\<open>\b\<close>, \<^verbatim>\<open>\f\<close>, \<^verbatim>\<open>\n\<close>,
  \<^verbatim>\<open>\r\<close>, \<^verbatim>\<open>\t\<close>; every other character is written as it is.
\<close>

lemma write_control_character:
  "JsonSerial_write 6 P_classes (VPtr ''P'' (Some 1)) [] 1
      (JsonSerial_ctor [1 \<mapsto> P_object [CHR 0x01] ''212''] 2)
   = (Normal, True,
      (reset 1 [] [] (JsonSerial_ctor [1 \<mapsto> P_object [CHR 0x01] ''212''] 2))
        \<lparr>ostream := ''{'' @ [nl] @ ''  '' @ quoted ''type'' @ '': '' @ quoted [CHR 0x01] @ '',''
           @ [nl] @ ''  '' @ quoted ''number'' @ '': '' @ quoted ''212'' @ [nl] @ ''}'' @ [nl, nl],
         needcomma := True\<rparr>)"
  by (simp add: JsonSerial_write_def reset_def writer_defs scenario_defs char_defs
        eval_nat_numeral config_defs)

text \<open>
  C1 does not hold for this object.  The write succeeds; reading its output back with the
  same engine stops at the character \<^verbatim>\<open>0x01\<close>, which \<^verbatim>\<open>readLine\<close> rejects inside a quoted
  string as it does every control character: the fatal error \<^verbatim>\<open>InvalidCharacter\<close> is
  reported, the call returns \<^verbatim>\<open>false\<close>, and the pointer read into stays null.
\<close>

theorem roundtrip_control_character:
  "(case JsonSerial_write 6 P_classes (VPtr ''P'' (Some 1)) [] 1
          (JsonSerial_ctor [1 \<mapsto> P_object [CHR 0x01] ''212''] 2) of
      (oc, ok, js) \<Rightarrow>
        (oc, ok,
         case JsonSerial_read 9 P_classes (VPtr ''P'' None) (ostream js) 1 js of
           (oc', ok', v, js') \<Rightarrow> (oc', ok', v, map etype (reported js'))))
   = (Normal, True, Normal, False, VPtr ''P'' None, [InvalidCharacter])"
  unfolding write_control_character prod.case
  by (simp add: JsonSerial_read_def reset_def reader_defs readLine_loop.simps
        tokenizer_defs char_defs scenario_defs eval_nat_numeral Let_def config_defs)

text \<open>
  C2 does not hold for this object, which has no pointer and no container.  Its output is
  the one above; the read of that output fails and leaves a null pointer, and writing what
  was read gives \<^verbatim>\<open>null\<close> and the two newlines.
\<close>

theorem rewrite_control_character:
  "(case JsonSerial_write 6 P_classes (VPtr ''P'' (Some 1)) [] 1
          (JsonSerial_ctor [1 \<mapsto> P_object [CHR 0x01] ''212''] 2) of
      (oc, ok, js) \<Rightarrow>
        (oc, ok, ostream js,
         case JsonSerial_read 9 P_classes (VPtr ''P'' None) (ostream js) 1 js of
           (oc', ok', v, js') \<Rightarrow>
             (case JsonSerial_write 6 P_classes v [] 1 js' of
                (oc'', ok'', js'') \<Rightarrow> (oc'', ok'', ostream js''))))
   = (Normal, True,
      ''{'' @ [nl] @ ''  '' @ quoted ''type'' @ '': '' @ quoted [CHR 0x01] @ '','' @ [nl]
        @ ''  '' @ quoted ''number'' @ '': '' @ quoted ''212'' @ [nl] @ ''}'' @ [nl, nl],
      Normal, True, ''null'' @ [nl, nl])"
  unfolding write_control_character prod.case
  by (simp add: JsonSerial_read_def JsonSerial_write_def writer_defs reset_def reader_defs
        readLine_loop.simps tokenizer_defs char_defs scenario_defs eval_nat_numeral Let_def
        config_defs)

subsection \<open>Shared objects and their ids\<close>

lemma keeps_ids_refl [simp]: "keeps_ids js js"
  by (simp add: keeps_ids_def)

lemma keeps_ids_trans: "keeps_ids js1 js2 \<Longrightarrow> keeps_ids js2 js3 \<Longrightarrow> keeps_ids js1 js3"
  unfolding keeps_ids_def by (auto intro: map_le_trans)

lemma keeps_ids_same:
  "sharing js' = sharing js \<Longrightarrow> object_to_id js' = object_to_id js \<Longrightarrow>
   current_object_id js' = current_object_id js \<Longrightarrow> ostream js' = ostream js @ s \<Longrightarrow>
   keeps_ids js js'"
  by (auto simp: keeps_ids_def ids_ok_def)

lemma same_ids_refl [simp]: "same_ids js js"
  by (simp add: same_ids_def)

lemma same_ids_put [simp]: "same_ids js js1 \<Longrightarrow> same_ids js (put s js1)"
  by (auto simp: same_ids_def put_def)

lemma same_ids_needcomma [simp]: "same_ids js js1 \<Longrightarrow> same_ids js (js1\<lparr>needcomma := b\<rparr>)"
  by (auto simp: same_ids_def)

lemma same_ids_writeTabs [simp]: "same_ids js js1 \<Longrightarrow> same_ids js (writeTabs js1)"
  by (simp add: writeTabs_def)

lemma same_ids_addTab [simp]: "same_ids js js1 \<Longrightarrow> same_ids js (addTab js1)"
  by (auto simp: same_ids_def addTab_def Let_def)

lemma same_ids_removeTab [simp]: "same_ids js js1 \<Longrightarrow> same_ids js (removeTab js1)"
  by (auto simp: same_ids_def removeTab_def Let_def)

lemma same_ids_writeString [simp]: "same_ids js js1 \<Longrightarrow> same_ids js (writeString s js1)"
  by (simp add: writeString_def)

lemma same_ids_comma [simp]: "same_ids js js1 \<Longrightarrow> same_ids js (comma js1)"
  by (simp add: comma_def)

lemma same_ids_member_label [simp]: "same_ids js js1 \<Longrightarrow> same_ids js (member_label n js1)"
  by (simp add: member_label_def)

lemma same_ids_error: "error t a f js = (oc, js') \<Longrightarrow> same_ids js js'"
  by (auto simp: same_ids_def error_def Let_def)

lemma same_ids_keeps: "same_ids js js' \<Longrightarrow> keeps_ids js js'"
  by (auto simp: same_ids_def intro: keeps_ids_same)

lemma keeps_ids_same_ids: "keeps_ids js js1 \<Longrightarrow> same_ids js1 js2 \<Longrightarrow> keeps_ids js js2"
  by (rule keeps_ids_trans [OF _ same_ids_keeps])

lemma same_ids_keeps_ids: "same_ids js js1 \<Longrightarrow> keeps_ids js1 js2 \<Longrightarrow> keeps_ids js js2"
  by (rule keeps_ids_trans [OF same_ids_keeps])

lemma for_each_keeps:
  assumes "\<And>it js oc js'. f it js = (oc, js') \<Longrightarrow> keeps_ids js js'"
    and "for_each f xs js = (oc, js')"
  shows "keeps_ids js js'"
  using assms(2)
proof (induction xs arbitrary: js)
  case Nil
  then show ?case by simp
next
  case (Cons x xs)
  obtain oc1 js1 where f: "f x js = (oc1, js1)" by (cases "f x js") auto
  from assms(1) [OF f] have k: "keeps_ids js js1" .
  show ?case
  proof (cases "oc1 = Normal")
    case True
    with f Cons.prems have "for_each f xs js1 = (oc, js')" by simp
    from keeps_ids_trans [OF k Cons.IH [OF this]] show ?thesis .
  next
    case False
    with f Cons.prems have "js1 = js'" by (cases oc1) auto
    with k show ?thesis by simp
  qed
qed

lemma then_needcomma_keeps:
  assumes "r = (oc0, js0)" and "keeps_ids js js0" and "then_needcomma r = (oc, js')"
  shows "keeps_ids js js'"
proof (cases "oc0 = Normal")
  case True
  with assms(1,3) have "js' = js0\<lparr>needcomma := True\<rparr>" by (auto simp: then_needcomma_def)
  with keeps_ids_same_ids [OF assms(2), of "js0\<lparr>needcomma := True\<rparr>"] show ?thesis by simp
next
  case False
  with assms(1,3) have "js' = js0" by (cases oc0) (auto simp: then_needcomma_def)
  with assms(2) show ?thesis by simp
qed

lemma wkeepsD: "wkeeps rec \<Longrightarrow> rec r js = (oc, js') \<Longrightarrow> keeps_ids js js'"
  by (auto simp: wkeeps_def)

lemma then_needcomma_rec_keeps:
  assumes "wkeeps rec" and "then_needcomma (rec r js) = (oc, js')"
  shows "keeps_ids js js'"
proof -
  obtain oc0 js0 where r: "rec r js = (oc0, js0)" by (cases "rec r js") auto
  from then_needcomma_keeps [OF r wkeepsD [OF assms(1) r] assms(2)] show ?thesis .
qed

lemma writeArray_body_keeps:
  assumes "wkeeps rec" and "writeArray_body rec array js = (oc, js')"
  shows "keeps_ids js js'"
proof -
  let ?f = "\<lambda>it js. rec (WriteValue it)
                 ((writeTabs (if needcomma js then put ('','' @ [nl]) js else js))
                    \<lparr>needcomma := False\<rparr>)"
  let ?js0 = "addTab (put (''['' @ [nl]) (js\<lparr>needcomma := False\<rparr>))"
  obtain oc1 js1 where f: "for_each ?f array ?js0 = (oc1, js1)"
    by (cases "for_each ?f array ?js0") auto
  have 0: "same_ids js ?js0" by simp
  have step: "keeps_ids js js'" if "?f it js = (oc, js')" for it js oc js'
  proof -
    have "same_ids js ((writeTabs (if needcomma js then put ('','' @ [nl]) js else js))
                    \<lparr>needcomma := False\<rparr>)"
      by simp
    from same_ids_keeps_ids [OF this wkeepsD [OF assms(1) that]] show ?thesis .
  qed
  have 1: "keeps_ids ?js0 js1" by (rule for_each_keeps [of ?f, OF step f])
  show ?thesis
  proof (cases "oc1 = Normal")
    case True
    with f assms(2) have "js' = put '']'' (writeTabs (put [nl] (removeTab js1)))"
      by (simp add: writeArray_body_def)
    moreover have "same_ids js1 (put '']'' (writeTabs (put [nl] (removeTab js1))))" by simp
    ultimately have "same_ids js1 js'" by simp
    from keeps_ids_same_ids [OF same_ids_keeps_ids [OF 0 1] this] show ?thesis .
  next
    case False
    with f assms(2) have "js' = js1" by (cases oc1) (auto simp: writeArray_body_def)
    with same_ids_keeps_ids [OF 0 1] show ?thesis by simp
  qed
qed

lemma writeValue_body_keeps:
  assumes "wkeeps rec" and "writeValue_body rec v js = (oc, js')"
  shows "keeps_ids js js'"
proof (cases v)
  case (VString s)
  with assms(2) have "js' = writeString s js" by (auto simp: writeValue_body_def)
  then show ?thesis by (simp add: same_ids_keeps)
next
  case (VPtr T p)
  show ?thesis
  proof (cases p)
    case None
    with VPtr assms(2) have "js' = (put ''null'' js)\<lparr>needcomma := True\<rparr>"
      by (auto simp: writeValue_body_def)
    then show ?thesis by (simp add: same_ids_keeps)
  next
    case (Some a)
    with VPtr assms(2)
    have "then_needcomma (rec (WriteValue (VObj T a)) js) = (oc, js')"
      by (simp add: writeValue_body_def)
    from then_needcomma_rec_keeps [OF assms(1) this] show ?thesis .
  qed
next
  case (VObj T a)
  with assms(2) have "then_needcomma (rec (WriteValue2_defobject T a) js) = (oc, js')"
    by (simp add: writeValue_body_def)
  from then_needcomma_rec_keeps [OF assms(1) this] show ?thesis .
next
  case (VVector t cont)
  with assms(2) have
    t: "then_needcomma (if cont = [] then (Normal, put ''[]'' js) else writeArray_body rec cont js)
      = (oc, js')"
    by (simp add: writeValue_body_def)
  show ?thesis
  proof (cases "cont = []")
    case True
    with t have t': "then_needcomma (Normal, put ''[]'' js) = (oc, js')" by simp
    have "keeps_ids js (put ''[]'' js)" by (simp add: same_ids_keeps)
    from then_needcomma_keeps [OF refl this t'] show ?thesis .
  next
    case False
    with t have t': "then_needcomma (writeArray_body rec cont js) = (oc, js')" by simp
    obtain oc0 js0 where w: "writeArray_body rec cont js = (oc0, js0)"
      by (cases "writeArray_body rec cont js") auto
    from then_needcomma_keeps [OF w writeArray_body_keeps [OF assms(1) w] t'] show ?thesis .
  qed
next
  case (VMap t a)
  with assms(2) have "then_needcomma (rec (WriteObject (MapClass t) False a) js) = (oc, js')"
    by (simp add: writeValue_body_def)
  from then_needcomma_rec_keeps [OF assms(1) this] show ?thesis .
qed

lemma writeValue2_defobject_body_keeps:
  assumes "wkeeps rec" and "writeValue2_defobject_body rec classes T obj js = (oc, js')"
  shows "keeps_ids js js'"
proof (cases "getClassT classes (typeid_of js T obj)")
  case None
  with assms(2) have "error UnknownClass (typeid_of js T obj) True js = (oc, js')"
    by (simp add: writeValue2_defobject_body_def)
  from same_ids_keeps [OF same_ids_error [OF this]] show ?thesis .
next
  case (Some cl)
  with assms(2) have "rec (WriteObject cl (typeid_of js T obj \<noteq> T) obj) js = (oc, js')"
    by (simp add: writeValue2_defobject_body_def)
  from wkeepsD [OF assms(1) this] show ?thesis .
qed

lemma member_step_keeps:
  assumes "wkeeps rec" and "rec r (member_label n (comma js)) = (oc, js')"
  shows "keeps_ids js js'"
proof -
  have "same_ids js (member_label n (comma js))" by simp
  from same_ids_keeps_ids [OF this wkeepsD [OF assms]] show ?thesis .
qed

lemma writeMembers_body_keeps:
  assumes "wkeeps rec" and "writeMembers_body rec cl obj js = (oc, js')"
  shows "keeps_ids js js'"
proof (cases cl)
  case (ObjectClass cn sups cr ms pr)
  let ?s = "\<lambda>it js. rec (WriteMembers (super it) (upcast it obj)) js"
  let ?m = "\<lambda>it js. rec (WriteValue (get_field js obj (variable it)))
                     (member_label (name it) (comma js))"
  obtain oc1 js1 where s: "for_each ?s sups js = (oc1, js1)"
    by (cases "for_each ?s sups js") auto
  have 1: "keeps_ids js js1"
    by (rule for_each_keeps [of ?s, OF _ s]) (erule wkeepsD [OF assms(1)])
  show ?thesis
  proof (cases "oc1 = Normal")
    case True
    with s ObjectClass assms(2) have m: "for_each ?m ms js1 = (oc, js')"
      by (simp add: writeMembers_body_def)
    have "keeps_ids js1 js'"
      by (rule for_each_keeps [of ?m, OF _ m]) (erule member_step_keeps [OF assms(1)])
    from keeps_ids_trans [OF 1 this] show ?thesis .
  next
    case False
    with s ObjectClass assms(2) have "js' = js1"
      by (cases oc1) (auto simp: writeMembers_body_def)
    with 1 show ?thesis by simp
  qed
next
  case (MapClass t)
  let ?m = "\<lambda>it js. rec (WriteValue (snd it)) (member_label (fst it) (comma js))"
  from MapClass assms(2) have m: "for_each ?m (map_entries js obj) js = (oc, js')"
    by (simp add: writeMembers_body_def)
  show ?thesis
    by (rule for_each_keeps [of ?m, OF _ m]) (erule member_step_keeps [OF assms(1)])
qed

lemma put_fields [simp]:
  "sharing (put s js) = sharing js" "object_to_id (put s js) = object_to_id js"
  "current_object_id (put s js) = current_object_id js" "level (put s js) = level js"
  "indent (put s js) = indent js" "tabs (put s js) = tabs js" "tabchar (put s js) = tabchar js"
  "ostream (put s js) = ostream js @ s"
  by (simp_all add: put_def)

lemma writeTabs_fields [simp]:
  "sharing (writeTabs js) = sharing js" "object_to_id (writeTabs js) = object_to_id js"
  "current_object_id (writeTabs js) = current_object_id js" "level (writeTabs js) = level js"
  "indent (writeTabs js) = indent js" "tabs (writeTabs js) = tabs js"
  "tabchar (writeTabs js) = tabchar js"
  "ostream (writeTabs js) = ostream js @ take (nat (level js) * indent js) (tabs js)"
  by (simp_all add: writeTabs_def)

lemma addTab_fields [simp]:
  "sharing (addTab js) = sharing js" "object_to_id (addTab js) = object_to_id js"
  "current_object_id (addTab js) = current_object_id js" "level (addTab js) = level js + 1"
  "indent (addTab js) = indent js" "tabchar (addTab js) = tabchar js"
  "ostream (addTab js) = ostream js"
  "tabs (addTab js) =
     (if length (tabs js) \<le> nat (level js + 1) * indent js
      then tabs js @ replicate 20 (tabchar js) else tabs js)"
  by (simp_all add: addTab_def Let_def)

lemma writeObject_body_seen:
  "sharing js \<Longrightarrow> object_to_id js obj = Some i \<Longrightarrow>
   writeObject_body rec cl d obj js = (Normal, put (quoted (''@'' @ to_string i)) js)"
  by (simp add: writeObject_body_def quoted_def)

lemma writeObject_body_first:
  "\<not> sharing js \<or> object_to_id js obj = None \<Longrightarrow>
   writeObject_body rec cl d obj js =
     (case rec (WriteMembers cl obj) (first_sight cl d obj js) of
        (Normal, js5) \<Rightarrow> (Normal, object_end js5)
      | r \<Rightarrow> r)"
  unfolding object_end_def
  by (auto simp add: writeObject_body_def first_sight_def Let_def)

lemma new_id_ok:
  assumes "ids_ok js" and "object_to_id js obj = None"
  shows "ids_ok (js\<lparr>current_object_id := current_object_id js + 1,
                    object_to_id := (object_to_id js)(obj \<mapsto> current_object_id js + 1)\<rparr>)"
proof -
  from assms(1) have r: "ran (object_to_id js) = {1..current_object_id js}"
    and i: "inj_on (object_to_id js) (dom (object_to_id js))"
    by (simp_all add: ids_ok_def)
  have new: "object_to_id js a \<noteq> Some (Suc (current_object_id js))" for a
  proof
    assume "object_to_id js a = Some (Suc (current_object_id js))"
    then have "Suc (current_object_id js) \<in> ran (object_to_id js)" by (auto simp: ran_def)
    with r show False by simp
  qed
  have "ran ((object_to_id js)(obj \<mapsto> Suc (current_object_id js)))
      = insert (Suc (current_object_id js)) (ran (object_to_id js))"
    using assms(2) by simp
  also have "\<dots> = {1..Suc (current_object_id js)}"
    unfolding r by (simp add: atLeastAtMostSuc_conv)
  finally have 1: "ran ((object_to_id js)(obj \<mapsto> Suc (current_object_id js)))
      = {1..Suc (current_object_id js)}" .
  have 2: "inj_on ((object_to_id js)(obj \<mapsto> Suc (current_object_id js)))
      (dom ((object_to_id js)(obj \<mapsto> Suc (current_object_id js))))"
  proof (rule inj_onI)
    fix a b
    assume a: "a \<in> dom ((object_to_id js)(obj \<mapsto> Suc (current_object_id js)))"
      and b: "b \<in> dom ((object_to_id js)(obj \<mapsto> Suc (current_object_id js)))"
      and e: "((object_to_id js)(obj \<mapsto> Suc (current_object_id js))) a
            = ((object_to_id js)(obj \<mapsto> Suc (current_object_id js))) b"
    show "a = b"
    proof (cases "a = obj \<or> b = obj")
      case True
      with e new [of a] new [of b] show ?thesis by (auto split: if_splits)
    next
      case False
      with a b e have "a \<in> dom (object_to_id js)" "b \<in> dom (object_to_id js)"
        "object_to_id js a = object_to_id js b" by auto
      with i show ?thesis by (auto dest: inj_onD)
    qed
  qed
  from 1 2 show ?thesis by (simp add: ids_ok_def)
qed

lemma first_sight_keeps: 
  assumes "\<not> sharing js \<or> object_to_id js obj = None"
  shows "keeps_ids js (first_sight cl d obj js)"
proof -
  define js1 where "js1 = (if sharing js then
                   js\<lparr>current_object_id := current_object_id js + 1,
                      object_to_id := (object_to_id js)(obj \<mapsto> current_object_id js + 1)\<rparr>
                 else js)"
  have 1: "keeps_ids js js1"
  proof (cases "sharing js")
    case False
    then show ?thesis by (simp add: js1_def)
  next
    case True
    with assms have n: "object_to_id js obj = None" by simp
    from True n new_id_ok [OF _ n] show ?thesis
      by (auto simp add: js1_def keeps_ids_def map_le_def)
  qed
  have "same_ids js1 (first_sight cl d obj js)"
    unfolding first_sight_def js1_def [symmetric] Let_def by simp
  from keeps_ids_same_ids [OF 1 this] show ?thesis .
qed

lemma writeObject_body_keeps:
  assumes "wkeeps rec" and "writeObject_body rec cl d obj js = (oc, js')"
  shows "keeps_ids js js'"
proof (cases "sharing js \<and> object_to_id js obj \<noteq> None")
  case True
  then obtain i where "sharing js" "object_to_id js obj = Some i" by auto
  from writeObject_body_seen [OF this] assms(2) show ?thesis
    by (auto simp: same_ids_keeps)
next
  case False
  then have f: "\<not> sharing js \<or> object_to_id js obj = None" by simp
  obtain oc1 js5 where r: "rec (WriteMembers cl obj) (first_sight cl d obj js) = (oc1, js5)"
    by (cases "rec (WriteMembers cl obj) (first_sight cl d obj js)") auto
  from keeps_ids_trans [OF first_sight_keeps [OF f] wkeepsD [OF assms(1) r]]
  have 1: "keeps_ids js js5" .
  show ?thesis
  proof (cases "oc1 = Normal")
    case True
    with r assms(2) have "js' = object_end js5" by (simp add: writeObject_body_first [OF f])
    moreover have "same_ids js5 (object_end js5)" by (simp add: object_end_def)
    ultimately show ?thesis using keeps_ids_same_ids [OF 1] by simp
  next
    case False
    with r assms(2) have "js' = js5" by (cases oc1) (auto simp: writeObject_body_first [OF f])
    with 1 show ?thesis by simp
  qed
qed

lemma writer_keeps: "wkeeps (writer n classes)"
proof (induction n)
  case 0
  show ?case by (simp add: wkeeps_def writer.simps)
next
  case (Suc n)
  show ?case
    unfolding wkeeps_def
  proof (intro allI impI)
    fix r js oc js'
    assume a: "writer (Suc n) classes r js = (oc, js')"
    show "keeps_ids js js'"
    proof (cases r)
      case (WriteValue v)
      with a show ?thesis by (simp only: writer_Suc) (rule writeValue_body_keeps [OF Suc])
    next
      case (WriteValue2_defobject T obj)
      with a show ?thesis
        by (simp only: writer_Suc) (rule writeValue2_defobject_body_keeps [OF Suc])
    next
      case (WriteObject cl d obj)
      with a show ?thesis by (simp only: writer_Suc) (rule writeObject_body_keeps [OF Suc])
    next
      case (WriteMembers cl obj)
      with a show ?thesis by (simp only: writer_Suc) (rule writeMembers_body_keeps [OF Suc])
    qed
  qed
qed

lemma reset_fields [simp]:
  "sharing (reset ln inp outp js) = sharing js" "object_to_id (reset ln inp outp js) = Map.empty"
  "current_object_id (reset ln inp outp js) = 0" "level (reset ln inp outp js) = 0"
  "indent (reset ln inp outp js) = indent js" "ostream (reset ln inp outp js) = outp"
  "tabs (reset ln inp outp js) = replicate 40 (tabchar js)"
  "tabchar (reset ln inp outp js) = tabchar js"
  by (simp_all add: reset_def)

lemma ids_ok_reset: "ids_ok (reset ln inp outp js)"
  by (simp add: ids_ok_def reset_def)

lemma JsonSerial_write_ids_ok:
  assumes "JsonSerial_write n classes v outp ln js = (oc, ok, js')"
  shows "ids_ok js'"
proof -
  obtain oc1 js1 where w: "writeValue n classes v (reset ln [] outp js) = (oc1, js1)"
    by (cases "writeValue n classes v (reset ln [] outp js)") auto
  from wkeepsD [OF writer_keeps w [unfolded writeValue_def]] ids_ok_reset
  have 1: "ids_ok js1" by (simp add: keeps_ids_def)
  have "js' = js1 \<or> js' = put [nl, nl] js1"
    using assms w by (cases oc1) (auto simp: JsonSerial_write_def Let_def split: exn.splits)
  moreover have "keeps_ids js1 (put [nl, nl] js1)" by (simp add: same_ids_keeps)
  ultimately show ?thesis using 1 by (auto simp: keeps_ids_def)
qed

lemma first_sight_ids:
  assumes "sharing js"
  shows "object_to_id (first_sight cl d obj js) = (object_to_id js)(obj \<mapsto> current_object_id js + 1)"
    and "current_object_id (first_sight cl d obj js) = current_object_id js + 1"
    and "ostream (first_sight cl d obj js) =
      ostream js @ ''{'' @ [nl]
        @ (if d then take (nat (level js + 1) * indent js) (tabs (addTab js))
                  @ quoted ''@class'' @ '': '' @ quoted (classname_of cl) @ '','' @ [nl]
           else [])
        @ take (nat (level js + 1) * indent js) (tabs (addTab js))
        @ quoted ''@id'' @ '': '' @ quoted (to_string (current_object_id js + 1)) @ '','' @ [nl]"
  using assms
  by (simp_all add: first_sight_def Let_def quoted_def)

lemma to_string_1: "to_string (Suc 0) = ''1''"
  by code_simp

text \<open>
  With sharing on, \<^verbatim>\<open>writeObject\<close> goes by the address it is given, the key of the table
  \<^verbatim>\<open>object_to_id_\<close>.  If the table has the id \<open>i\<close> for the address, only the string \<^verbatim>\<open>"@i"\<close>
  is written and nothing else changes.  If the address is not in the table, the counter is
  incremented, its new value is recorded as the id of the address, and the output gets the
  open brace, the \<^verbatim>\<open>@class\<close> member for an object of a derived class, and the member \<^verbatim>\<open>@id\<close>
  with that id; then the members are written and the brace is closed.  In every run of the
  writer the addresses in the table keep their ids, the counter does not decrease and the
  output is only appended to.  After a call of \<^verbatim>\<open>write\<close>, which starts with the empty table
  and the counter 0, the ids in the table are the numbers 1, 2, ... up to the counter, each
  the id of one address.
\<close>

lemma ids_by_address:
  assumes "sharing js"
  shows
   "(object_to_id js obj = Some i \<longrightarrow>
       writeObject (Suc n) classes cl d obj js = (Normal, put (quoted (''@'' @ to_string i)) js))
    \<and> (object_to_id js obj = None \<longrightarrow>
         object_to_id (first_sight cl d obj js)
           = (object_to_id js)(obj \<mapsto> current_object_id js + 1)
       \<and> current_object_id (first_sight cl d obj js) = current_object_id js + 1
       \<and> ostream (first_sight cl d obj js) =
           ostream js @ ''{'' @ [nl]
           @ (if d then take (nat (level js + 1) * indent js) (tabs (addTab js))
                     @ quoted ''@class'' @ '': '' @ quoted (classname_of cl) @ '','' @ [nl]
              else [])
           @ take (nat (level js + 1) * indent js) (tabs (addTab js))
           @ quoted ''@id'' @ '': '' @ quoted (to_string (current_object_id js + 1))
           @ '','' @ [nl]
       \<and> writeObject (Suc n) classes cl d obj js =
           (case writeMembers n classes cl obj (first_sight cl d obj js) of
              (Normal, js5) \<Rightarrow> (Normal, object_end js5)
            | r \<Rightarrow> r))
    \<and> (writer n classes r js = (oc, js') \<longrightarrow> keeps_ids js js')
    \<and> (JsonSerial_write n classes v outp ln js = (oc', ok, js'') \<longrightarrow> ids_ok js'')"
proof (intro conjI impI)
  assume "object_to_id js obj = Some i"
  with assms show "writeObject (Suc n) classes cl d obj js
      = (Normal, put (quoted (''@'' @ to_string i)) js)"
    by (simp only: writeObject_def writer_Suc writeObject_body_seen)
next
  assume "object_to_id js obj = None"
  then have "\<not> sharing js \<or> object_to_id js obj = None" ..
  from writeObject_body_first [OF this]
  show "writeObject (Suc n) classes cl d obj js =
           (case writeMembers n classes cl obj (first_sight cl d obj js) of
              (Normal, js5) \<Rightarrow> (Normal, object_end js5)
            | r \<Rightarrow> r)"
    by (simp only: writeObject_def writeMembers_def writer_Suc)
next
  assume "writer n classes r js = (oc, js')"
  then show "keeps_ids js js'" by (rule wkeepsD [OF writer_keeps])
next
  assume "JsonSerial_write n classes v outp ln js = (oc', ok, js'')"
  then show "ids_ok js''" by (rule JsonSerial_write_ids_ok)
qed (use assms in \<open>simp_all only: first_sight_ids\<close>)

lemma write_twice:
  "(case JsonSerial_write 7 P_classes twice [] 1
       (setSharing True (JsonSerial_ctor [1 \<mapsto> P_object ''home'' ''212''] 2)) of
     (oc, ok, js) \<Rightarrow> (oc, ok, ostream js, object_to_id js 1, current_object_id js))
   = (Normal, True,
      ''['' @ [nl] @ ''  {'' @ [nl] @ ''    '' @ quoted ''@id'' @ '': '' @ quoted ''1'' @ '',''
        @ [nl] @ ''    '' @ quoted ''type'' @ '': '' @ quoted ''home'' @ '','' @ [nl]
        @ ''    '' @ quoted ''number'' @ '': '' @ quoted ''212'' @ [nl] @ ''  },'' @ [nl]
        @ ''  '' @ quoted ''@1'' @ [nl] @ '']'' @ [nl, nl],
      Some 1, 1)"
  by (simp add: JsonSerial_write_def reset_def writer_defs scenario_defs char_defs
        eval_nat_numeral config_defs twice_def to_string_1)

lemma ids_by_address_example:
  "sharing (reset 1 [] [] (setSharing True (JsonSerial_ctor [1 \<mapsto> P_object ''home'' ''212''] 2)))
   \<and> object_to_id
       (reset 1 [] [] (setSharing True (JsonSerial_ctor [1 \<mapsto> P_object ''home'' ''212''] 2))) 1
       = None
   \<and> object_to_id (first_sight P_class False 1
        (reset 1 [] [] (setSharing True (JsonSerial_ctor [1 \<mapsto> P_object ''home'' ''212''] 2)))) 1
       = Some 1
   \<and> ostream (first_sight P_class False 1
        (reset 1 [] [] (setSharing True (JsonSerial_ctor [1 \<mapsto> P_object ''home'' ''212''] 2))))
       = ''{'' @ [nl] @ ''  '' @ quoted ''@id'' @ '': '' @ quoted ''1'' @ '','' @ [nl]
   \<and> writeObject 1 P_classes P_class False 1
        (first_sight P_class False 1
          (reset 1 [] [] (setSharing True (JsonSerial_ctor [1 \<mapsto> P_object ''home'' ''212''] 2))))
       = (Normal, put (quoted ''@1'')
           (first_sight P_class False 1
             (reset 1 [] [] (setSharing True
                (JsonSerial_ctor [1 \<mapsto> P_object ''home'' ''212''] 2)))))
   \<and> keeps_ids
        (reset 1 [] [] (setSharing True (JsonSerial_ctor [1 \<mapsto> P_object ''home'' ''212''] 2)))
        (snd (writer 3 P_classes (WriteObject P_class False 1)
          (reset 1 [] [] (setSharing True
             (JsonSerial_ctor [1 \<mapsto> P_object ''home'' ''212''] 2)))))
   \<and> ids_ok (snd (snd (JsonSerial_write 7 P_classes twice [] 1
        (setSharing True (JsonSerial_ctor [1 \<mapsto> P_object ''home'' ''212''] 2)))))"
proof -
  let ?c = "setSharing True (JsonSerial_ctor [1 \<mapsto> P_object ''home'' ''212''] 2)"
  let ?js = "reset 1 [] [] ?c"
  let ?fs = "first_sight P_class False 1 ?js"
  let ?w = "writer 3 P_classes (WriteObject P_class False 1) ?js"
  let ?t = "JsonSerial_write 7 P_classes twice [] 1 ?c"
  have c: "sharing ?c" by (simp add: config_defs)
  have s: "sharing ?js" by (simp add: config_defs)
  have n: "object_to_id ?js 1 = None" by simp
  note first = ids_by_address [OF s, where obj = 1 and cl = P_class and d = False
      and classes = P_classes and n = 3, THEN conjunct2, THEN conjunct1]
  from first n have 1: "object_to_id ?fs 1 = Some 1" by simp
  from first n have 2: "ostream ?fs
      = ''{'' @ [nl] @ ''  '' @ quoted ''@id'' @ '': '' @ quoted ''1'' @ '','' @ [nl]"
    by (simp add: to_string_1 config_defs numeral_2_eq_2)
  note run = ids_by_address [OF s, where classes = P_classes and n = 3
      and r = "WriteObject P_class False 1" and oc = "fst ?w" and js' = "snd ?w",
      THEN conjunct2, THEN conjunct2, THEN conjunct1]
  from run have 3: "keeps_ids ?js (snd ?w)" by simp
  from s have fs: "sharing ?fs" by (simp add: first_sight_def Let_def)
  note seen = ids_by_address [OF fs, where obj = 1 and i = 1 and cl = P_class
      and d = False and classes = P_classes and n = 0, THEN conjunct1]
  from seen 1 have 4: "writeObject 1 P_classes P_class False 1 ?fs
      = (Normal, put (quoted ''@1'') ?fs)"
    by (simp add: to_string_1)
  note top = ids_by_address [OF c, where classes = P_classes and n = 7 and v = twice
      and outp = "[]" and ln = 1 and oc' = "fst ?t" and ok = "fst (snd ?t)"
      and js'' = "snd (snd ?t)", THEN conjunct2, THEN conjunct2, THEN conjunct2]
  from top have 5: "ids_ok (snd (snd ?t))" by simp
  from s n 1 2 4 3 5 show ?thesis by (intro conjI)
qed

subsection \<open>An object at the address of an object already written\<close>

text \<open>
  C4 does not hold for an object that begins at the address of another object, as a
  member by value or an array element at offset 0 does.  With sharing on, the first
  sighting of an object at an address \<open>a\<close> that is not in the table gives it the next id and
  writes its members, starting in the state \<open>first_sight\<close>.  In every state that the writer
  reaches from there, \<^verbatim>\<open>writeObject\<close> called with the address \<open>a\<close>, for an object of any class,
  writes only the reference \<^verbatim>\<open>"@id"\<close> with the id of the first object: at its own first
  sighting the object at offset 0 gets no id, no \<^verbatim>\<open>@id\<close> member and no body.
\<close>

theorem object_at_written_address:
  assumes "sharing js" and "object_to_id js a = None"
  shows "writeObject (Suc n) classes cl d a js =
           (case writeMembers n classes cl a (first_sight cl d a js) of
              (Normal, js5) \<Rightarrow> (Normal, object_end js5)
            | r \<Rightarrow> r)
    \<and> (keeps_ids (first_sight cl d a js) js2 \<longrightarrow>
         writeObject (Suc m) classes cl' d' a js2 =
           (Normal, put (quoted (''@'' @ to_string (current_object_id js + 1))) js2))"
proof (intro conjI impI)
  from assms(2) have "\<not> sharing js \<or> object_to_id js a = None" ..
  from writeObject_body_first [OF this]
  show "writeObject (Suc n) classes cl d a js =
           (case writeMembers n classes cl a (first_sight cl d a js) of
              (Normal, js5) \<Rightarrow> (Normal, object_end js5)
            | r \<Rightarrow> r)"
    by (simp only: writeObject_def writeMembers_def writer_Suc)
next
  assume k: "keeps_ids (first_sight cl d a js) js2"
  from assms(2) have "\<not> sharing js \<or> object_to_id js a = None" ..
  from first_sight_keeps [OF this] assms(1) have "sharing (first_sight cl d a js)"
    by (simp add: keeps_ids_def)
  with k have s: "sharing js2" by (simp add: keeps_ids_def)
  from first_sight_ids(1) [OF assms(1)]
  have "object_to_id (first_sight cl d a js) a = Some (current_object_id js + 1)" by simp
  with k have "object_to_id js2 a = Some (current_object_id js + 1)"
    by (auto simp: keeps_ids_def map_le_def dom_def)
  from writeObject_body_seen [OF s this]
  show "writeObject (Suc m) classes cl' d' a js2 =
           (Normal, put (quoted (''@'' @ to_string (current_object_id js + 1))) js2)"
    by (simp only: writeObject_def writer_Suc)
qed

theorem object_at_written_address_witness:
  "sharing (reset 1 [] [] (setSharing True (JsonSerial_ctor Map.empty 2)))
   \<and> object_to_id (reset 1 [] [] (setSharing True (JsonSerial_ctor Map.empty 2))) 1 = None
   \<and> keeps_ids (first_sight Q_class False 1
          (reset 1 [] [] (setSharing True (JsonSerial_ctor Map.empty 2))))
        (member_label ''type'' (comma (first_sight Q_class False 1
          (reset 1 [] [] (setSharing True (JsonSerial_ctor Map.empty 2))))))
   \<and> (case writeObject 1 P_classes P_class False 1
          (member_label ''type'' (comma (first_sight Q_class False 1
            (reset 1 [] [] (setSharing True (JsonSerial_ctor Map.empty 2)))))) of
        (oc, js') \<Rightarrow> (oc, ostream js', object_to_id js' 1, current_object_id js'))
     = (Normal,
        ''{'' @ [nl] @ ''  '' @ quoted ''@id'' @ '': '' @ quoted ''1'' @ '','' @ [nl]
          @ ''  '' @ quoted ''type'' @ '': '' @ quoted ''@1'',
        Some 1, 1)"
proof -
  let ?js = "reset 1 [] [] (setSharing True (JsonSerial_ctor Map.empty 2))"
  let ?fs = "first_sight Q_class False 1 ?js"
  let ?js2 = "member_label ''type'' (comma ?fs)"
  have s: "sharing ?js" by (simp add: config_defs)
  have n: "object_to_id ?js 1 = None" by simp
  have "same_ids ?fs ?js2" by simp
  then have k: "keeps_ids ?fs ?js2" by (rule same_ids_keeps)
  note t = object_at_written_address [OF s n, where cl = Q_class and d = False
      and ?js2.0 = ?js2 and m = 0 and classes = P_classes and cl' = P_class and d' = False,
      THEN conjunct2]
  from t k have w: "writeObject 1 P_classes P_class False 1 ?js2
      = (Normal, put (quoted ''@1'') ?js2)"
    by (simp add: to_string_1)
  have "(case (Normal, put (quoted ''@1'') ?js2) of
        (oc, js') \<Rightarrow> (oc, ostream js', object_to_id js' 1, current_object_id js'))
     = (Normal,
        ''{'' @ [nl] @ ''  '' @ quoted ''@id'' @ '': '' @ quoted ''1'' @ '','' @ [nl]
          @ ''  '' @ quoted ''type'' @ '': '' @ quoted ''@1'',
        Some 1, 1)"
    by (simp add: first_sight_def Let_def member_label_def comma_def put_def writeTabs_def
          addTab_def reset_def config_defs quoted_def to_string_1 numeral_2_eq_2 char_defs)
  with w have 4: "(case writeObject 1 P_classes P_class False 1 ?js2 of
        (oc, js') \<Rightarrow> (oc, ostream js', object_to_id js' 1, current_object_id js'))
     = (Normal,
        ''{'' @ [nl] @ ''  '' @ quoted ''@id'' @ '': '' @ quoted ''1'' @ '','' @ [nl]
          @ ''  '' @ quoted ''type'' @ '': '' @ quoted ''@1'',
        Some 1, 1)"
    by (simp only:)
  from s n k 4 show ?thesis by (intro conjI)
qed

subsection \<open>Scenario 5: an unknown member\<close>

text \<open>
  When the name of a member is found neither in the class of the object nor in its
  superclasses, \<^verbatim>\<open>readObject\<close> reports the non-fatal error \<^verbatim>\<open>UnknownMember\<close>, which names the
  member and the class, and changes nothing else.  Reading the document
  \<^verbatim>\<open>{"type":"home","extra":"x","number":"1"}\<close>, in which the value of the unknown member is a
  string, into an object of the class \<^verbatim>\<open>P\<close> with the members \<^verbatim>\<open>type\<close> and \<^verbatim>\<open>number\<close>, in any
  state of the engine, reports exactly one error, the non-fatal \<^verbatim>\<open>UnknownMember\<close> naming the
  member \<^verbatim>\<open>extra\<close> and the class \<^verbatim>\<open>P\<close>; the parse goes on to the end, \<^verbatim>\<open>type\<close> and \<^verbatim>\<open>number\<close>
  are set from the document, and the call returns \<^verbatim>\<open>false\<close>.
\<close>

lemma read_unknown_member_value:
  "(is_object_class cl \<and> lookup_member cl a nam = None \<longrightarrow>
      readObject_member (reader (height cl + k) classes) cl (Some a) nam val js =
        (Normal,
         js\<lparr>jsonerror := Some \<lparr>etype = UnknownMember, fatal = False,
               arg = [sq] @ nam @ [sq] @ '' in class '' @ [sq] @ classname_of cl @ [sq],
               line = lineno js\<rparr>,
            reported := reported js @ [\<lparr>etype = UnknownMember, fatal = False,
               arg = [sq] @ nam @ [sq] @ '' in class '' @ [sq] @ classname_of cl @ [sq],
               line = lineno js\<rparr>]\<rparr>))
   \<and> (store js a = Some (Obj ''P'' fs) \<and> fs ''type'' = VString t0 \<and> fs ''number'' = VString n0
        \<longrightarrow>
      (case JsonSerial_read (8 + n) P_classes (VObj ''P'' a) doc_unknown_member ln js of
         (oc, ok, v, js') \<Rightarrow> (oc, ok, v, jsonerror js', reported js', store js' a, istream js'))
      = (Normal, False, VObj ''P'' a,
         Some \<lparr>etype = UnknownMember, fatal = False,
            arg = [sq] @ ''extra'' @ [sq] @ '' in class '' @ [sq] @ ''P'' @ [sq], line = ln\<rparr>,
         reported js @ [\<lparr>etype = UnknownMember, fatal = False,
            arg = [sq] @ ''extra'' @ [sq] @ '' in class '' @ [sq] @ ''P'' @ [sq], line = ln\<rparr>],
         Some (Obj ''P'' (fs(''type'' := VString ''home'', ''number'' := VString ''1''))), []))"
proof (intro conjI impI; elim conjE)
  assume c: "is_object_class cl" and l: "lookup_member cl a nam = None"
  from readMember_enough(1) [OF c le_refl, where k = k and obj = a and nam = nam
      and classes = classes and val = val and js = js] l
  have "r_readMember (reader (height cl + k) classes) cl a nam val js = (Normal, False, js)"
    by simp
  then show "readObject_member (reader (height cl + k) classes) cl (Some a) nam val js =
        (Normal,
         js\<lparr>jsonerror := Some \<lparr>etype = UnknownMember, fatal = False,
               arg = [sq] @ nam @ [sq] @ '' in class '' @ [sq] @ classname_of cl @ [sq],
               line = lineno js\<rparr>,
            reported := reported js @ [\<lparr>etype = UnknownMember, fatal = False,
               arg = [sq] @ nam @ [sq] @ '' in class '' @ [sq] @ classname_of cl @ [sq],
               line = lineno js\<rparr>]\<rparr>)"
    by (simp add: readObject_member_def error_def Let_def)
next
  assume "store js a = Some (Obj ''P'' fs)" and "fs ''type'' = VString t0"
    and "fs ''number'' = VString n0"
  then show "(case JsonSerial_read (8 + n) P_classes (VObj ''P'' a) doc_unknown_member ln js of
         (oc, ok, v, js') \<Rightarrow> (oc, ok, v, jsonerror js', reported js', store js' a, istream js'))
      = (Normal, False, VObj ''P'' a,
         Some \<lparr>etype = UnknownMember, fatal = False,
            arg = [sq] @ ''extra'' @ [sq] @ '' in class '' @ [sq] @ ''P'' @ [sq], line = ln\<rparr>,
         reported js @ [\<lparr>etype = UnknownMember, fatal = False,
            arg = [sq] @ ''extra'' @ [sq] @ '' in class '' @ [sq] @ ''P'' @ [sq], line = ln\<rparr>],
         Some (Obj ''P'' (fs(''type'' := VString ''home'', ''number'' := VString ''1''))), [])"
    by (simp add: JsonSerial_read_def reset_def reader_defs readLine_loop.simps tokenizer_defs
        char_defs scenario_defs eval_nat_numeral Let_def allows_def Comments_def
        del: reset_fields put_fields writeTabs_fields addTab_fields)
qed

text \<open>
  C7 does not hold when the value of the unknown member is an object.  For the document
  \<^verbatim>\<open>{"type":"home","extra":{},"number":"1"}\<close> the error \<^verbatim>\<open>UnknownMember\<close> is reported once and
  is not fatal, but \<^verbatim>\<open>readObject\<close> does not skip the value: the closing brace of the inner
  object is taken as the end of the object that is read, the call returns \<^verbatim>\<open>false\<close> with
  \<^verbatim>\<open>"number":"1"}\<close> left in the stream, and the member \<^verbatim>\<open>number\<close> is not set.
\<close>

theorem unknown_member_nested_value:
  "(case JsonSerial_read (8 + n) P_classes (VObj ''P'' 1) doc_unknown_nested 1
         (JsonSerial_ctor [1 \<mapsto> P_object [] []] 2) of
       (oc, ok, v, js') \<Rightarrow>
         (oc, ok, map etype (reported js'), map fatal (reported js'),
          get_field js' 1 ''type'', get_field js' 1 ''number'', istream js'))
   = (Normal, False, [UnknownMember], [False], VString ''home'', VString [],
      quoted ''number'' @ '':'' @ quoted ''1'' @ ''}'')"
  by (simp add: JsonSerial_read_def reset_def reader_defs readLine_loop.simps tokenizer_defs
        char_defs scenario_defs doc_unknown_nested_def eval_nat_numeral Let_def config_defs
        del: reset_fields put_fields writeTabs_fields addTab_fields)

subsection \<open>A bare value that begins with a closing brace\<close>

text \<open>
  C8 does not hold for a bare value that begins with \<^verbatim>\<open>}\<close> or \<^verbatim>\<open>]\<close>.  In the strict dialect
  (\<^verbatim>\<open>setSyntax(0)\<close>, \<^verbatim>\<open>NoQuotes\<close> not set) the document \<^verbatim>\<open>{"type":}x,"number":"1"}\<close> is read
  into an object of the class \<^verbatim>\<open>P\<close> with no error: the call returns \<^verbatim>\<open>true\<close> and the member
  \<^verbatim>\<open>type\<close> is set to \<^verbatim>\<open>}x\<close>, which is none of \<^verbatim>\<open>null\<close>, \<^verbatim>\<open>true\<close>, \<^verbatim>\<open>false\<close> or a number.
\<close>

theorem bare_closer_value_stored:
  "\<not> allows (setSyntax 0 (JsonSerial_ctor [1 \<mapsto> P_object [] []] 2)) NoQuotes
   \<and> ''}x'' \<notin> {''null'', ''true'', ''false''} \<and> \<not> isNumber ''}x''
   \<and> (case JsonSerial_read (8 + n) P_classes (VObj ''P'' 1) doc_bare_closer 1
         (setSyntax 0 (JsonSerial_ctor [1 \<mapsto> P_object [] []] 2)) of
       (oc, ok, v, js') \<Rightarrow>
         (oc, ok, reported js', get_field js' 1 ''type'', get_field js' 1 ''number'',
          istream js'))
     = (Normal, True, [], VString ''}x'', VString ''1'', [])"
proof -
  have a: "setSyntax 0 (JsonSerial_ctor [1 \<mapsto> P_object [] []] 2)
      = (JsonSerial_ctor [1 \<mapsto> P_object [] []] 2)\<lparr>allow := 0\<rparr>"
    by (simp add: setSyntax_def)
  have 1: "\<not> allows ((JsonSerial_ctor [1 \<mapsto> P_object [] []] 2)\<lparr>allow := 0\<rparr>) NoQuotes"
    by (simp add: allows_def)
  have 2: "''}x'' \<notin> {''null'', ''true'', ''false''} \<and> \<not> isNumber ''}x''"
    by (simp add: isNumber_def c_str_def isdigit_def)
  have 3: "(case JsonSerial_read (8 + n) P_classes (VObj ''P'' 1) doc_bare_closer 1
         ((JsonSerial_ctor [1 \<mapsto> P_object [] []] 2)\<lparr>allow := 0\<rparr>) of
       (oc, ok, v, js') \<Rightarrow>
         (oc, ok, reported js', get_field js' 1 ''type'', get_field js' 1 ''number'',
          istream js'))
     = (Normal, True, [], VString ''}x'', VString ''1'', [])"
    by (simp add: JsonSerial_read_def reset_def reader_defs readLine_loop.simps tokenizer_defs
          char_defs scenario_defs doc_bare_closer_def eval_nat_numeral Let_def
          JsonSerial_ctor_def allows_def Comments_def NoQuotes_def NoCommas_def Newlines_def
          del: reset_fields put_fields writeTabs_fields addTab_fields)
  from 1 2 3 show ?thesis unfolding a by (intro conjI) simp_all
qed

end
